theory Spec2Isabelle
  imports Complex_Main "HOL-Library.Word" "HOL-Library.Log_Nat"
begin

unbundle bit_operations_syntax

section \<open>The decoded object graph\<close>

text \<open>
  Modelled from the spec: the value tree of the external deserializer (ritobin's
  \<^verbatim>\<open>bin_types.hpp\<close> is included by the sources but is not part of them). Only the
  alternatives of the variant that the extractors inspect are kept apart; every other
  alternative (numbers, vectors, options, ...) is \<open>Prim\<close>. An \<open>FNV1a\<close> key is read
  through \<^verbatim>\<open>hash()\<close> only, so it is its 32-bit value. A list element is read through
  \<^verbatim>\<open>.value\<close> only, so a list is the list of its values; a pair of a map keeps
  \<^verbatim>\<open>key\<close> and \<^verbatim>\<open>value\<close>.
\<close>

type_synonym hash = "32 word"

datatype val =
    String string
  | Hash hash
  | Link hash
  | Embed hash "(hash \<times> val) list"
  | Pointer hash "(hash \<times> val) list"
  | List "val list"
  | List2 "val list"
  | Map "(val \<times> val) list"
  | Prim

type_synonym field = "hash \<times> val"

record bin =
  sections :: "string \<rightharpoonup> val"

text \<open>\<^verbatim>\<open>std::unordered_map<std::string, std::string> results\<close> and
  \<^verbatim>\<open>std::unordered_map<uint32_t, const ritobin::Embed*> entries_map\<close>; an entry of
  the index is the field list of the object it points to.\<close>

type_synonym results = "string \<rightharpoonup> string"
type_synonym entries_map = "hash \<rightharpoonup> field list"

definition HASH_SKIN_MESH_PROPERTIES :: hash where "HASH_SKIN_MESH_PROPERTIES = 0x45ff5904"
definition HASH_TEXTURE :: hash where "HASH_TEXTURE = 0x3c6468f4"
definition HASH_MATERIAL_OVERRIDE :: hash where "HASH_MATERIAL_OVERRIDE = 0x24725910"
definition HASH_SUBMESH :: hash where "HASH_SUBMESH = 0xaad7612c"
definition HASH_MATERIAL_LINK :: hash where "HASH_MATERIAL_LINK = 0xd2e4d060"
definition HASH_SAMPLER_VALUES :: hash where "HASH_SAMPLER_VALUES = 0x0a6f0eb5"
definition HASH_PROP_NAME :: hash where "HASH_PROP_NAME = 0xb311d4ef"
definition HASH_PROP_VALUE :: hash where "HASH_PROP_VALUE = 0xf0a363e3"

text \<open>\<^verbatim>\<open>ritobin_dll.cpp\<close> and \<^verbatim>\<open>lol_native.cpp\<close> name two of the constants differently.\<close>

definition HASH_NAME :: hash where "HASH_NAME = 0xaad7612c"
definition HASH_PROPERTIES_LIST :: hash where "HASH_PROPERTIES_LIST = 0x0a6f0eb5"

section \<open>\<^verbatim>\<open>bin_parser.cpp\<close>\<close>

definition get_string :: "val \<Rightarrow> string" where
  "get_string v = (case v of String s \<Rightarrow> s | _ \<Rightarrow> '''')"

definition get_link :: "val \<Rightarrow> hash" where
  "get_link v = (case v of Link l \<Rightarrow> l | _ \<Rightarrow> 0)"

definition get_embed :: "val \<Rightarrow> field list option" where
  "get_embed v = (case v of Embed n items \<Rightarrow> Some items | _ \<Rightarrow> None)"

definition get_list :: "val \<Rightarrow> val list option" where
  "get_list v = (case v of List items \<Rightarrow> Some items | _ \<Rightarrow> None)"

definition get_list2 :: "val \<Rightarrow> val list option" where
  "get_list2 v = (case v of List2 items \<Rightarrow> Some items | _ \<Rightarrow> None)"

text \<open>The first field with the key, or \<^verbatim>\<open>nullptr\<close>.\<close>

fun find_field :: "field list \<Rightarrow> hash \<Rightarrow> field option" where
  "find_field [] h = None"
| "find_field (f # fs) h = (if fst f = h then Some f else find_field fs h)"

text \<open>The lambda \<^verbatim>\<open>process_prop\<close>: \<open>Some p_val\<close> when it assigns \<^verbatim>\<open>tex_path\<close> and
  returns true, \<open>None\<close> when it returns false.\<close>

definition process_prop :: "val \<Rightarrow> string option" where
  "process_prop item_val =
     (case get_embed item_val of
        None \<Rightarrow> None
      | Some prop_embed \<Rightarrow>
          (let p_name = (case find_field prop_embed HASH_PROP_NAME of
                           Some pn \<Rightarrow> get_string (snd pn) | None \<Rightarrow> '''');
               p_val = (case find_field prop_embed HASH_PROP_VALUE of
                          Some pv \<Rightarrow> get_string (snd pv) | None \<Rightarrow> '''')
           in if p_name = ''Diffuse_Texture'' \<and> p_val \<noteq> '''' then Some p_val else None))"

text \<open>\<^verbatim>\<open>for (item : items) if (process_prop(item.value)) break;\<close>\<close>

fun scan_props :: "val list \<Rightarrow> string option" where
  "scan_props [] = None"
| "scan_props (item # items) =
     (case process_prop item of Some p \<Rightarrow> Some p | None \<Rightarrow> scan_props items)"

text \<open>The block \<^verbatim>\<open>if (tex_path.empty() && linked_mat_hash != 0) { ... }\<close>; the result is
  \<^verbatim>\<open>tex_path\<close> after it.\<close>

definition follow_link :: "entries_map \<Rightarrow> string \<Rightarrow> hash \<Rightarrow> string" where
  "follow_link entries_map tex_path linked_mat_hash =
     (if tex_path = '''' \<and> linked_mat_hash \<noteq> 0 then
        (case entries_map linked_mat_hash of
           None \<Rightarrow> tex_path
         | Some mat_entry \<Rightarrow>
             (case find_field mat_entry HASH_SAMPLER_VALUES of
                None \<Rightarrow> tex_path
              | Some props_field \<Rightarrow>
                  (case get_list (snd props_field) of
                     Some lst \<Rightarrow> (case scan_props lst of Some p \<Rightarrow> p | None \<Rightarrow> tex_path)
                   | None \<Rightarrow>
                       (case get_list2 (snd props_field) of
                          Some lst2 \<Rightarrow> (case scan_props lst2 of Some p \<Rightarrow> p | None \<Rightarrow> tex_path)
                        | None \<Rightarrow> tex_path))))
      else tex_path)"

text \<open>The three reads of an override, then the link, give \<^verbatim>\<open>mat_name\<close> and
  \<^verbatim>\<open>tex_path\<close> as they are before the final test.\<close>

definition override_name :: "field list \<Rightarrow> string" where
  "override_name override_embed =
     (case find_field override_embed HASH_SUBMESH of
        Some name_field \<Rightarrow> get_string (snd name_field) | None \<Rightarrow> '''')"

definition override_texture :: "field list \<Rightarrow> string" where
  "override_texture override_embed =
     (case find_field override_embed HASH_TEXTURE of
        Some tex_field \<Rightarrow> get_string (snd tex_field) | None \<Rightarrow> '''')"

definition override_link :: "field list \<Rightarrow> hash" where
  "override_link override_embed =
     (case find_field override_embed HASH_MATERIAL_LINK of
        Some mat_field \<Rightarrow> get_link (snd mat_field) | None \<Rightarrow> 0)"

definition override_path :: "entries_map \<Rightarrow> field list \<Rightarrow> string" where
  "override_path entries_map override_embed =
     follow_link entries_map (override_texture override_embed) (override_link override_embed)"

text \<open>One round of the loop over \<^verbatim>\<open>override_list->items\<close>.\<close>

definition process_override :: "entries_map \<Rightarrow> val \<Rightarrow> results \<Rightarrow> results" where
  "process_override entries_map override_item results =
     (case get_embed override_item of
        None \<Rightarrow> results
      | Some override_embed \<Rightarrow>
          (let mat_name = override_name override_embed;
               tex_path = override_path entries_map override_embed
           in if mat_name \<noteq> '''' \<and> tex_path \<noteq> '''' then results(mat_name \<mapsto> tex_path)
              else results))"

text \<open>The body of the loop over the entries once \<^verbatim>\<open>skin_mesh\<close> is found.\<close>

definition process_skin_mesh :: "entries_map \<Rightarrow> field list \<Rightarrow> results \<Rightarrow> results" where
  "process_skin_mesh entries_map skin_mesh results =
     (let results1 =
            (case find_field skin_mesh HASH_TEXTURE of
               None \<Rightarrow> results
             | Some tex_field \<Rightarrow>
                 (let tex = get_string (snd tex_field)
                  in if tex \<noteq> '''' then results(''BASE'' \<mapsto> tex) else results))
      in case find_field skin_mesh HASH_MATERIAL_OVERRIDE of
           None \<Rightarrow> results1
         | Some mo_field \<Rightarrow>
             (case get_list (snd mo_field) of
                None \<Rightarrow> results1
              | Some override_list \<Rightarrow> fold (process_override entries_map) override_list results1))"

text \<open>One round of the loop over \<^verbatim>\<open>entries_map_val->items\<close>.\<close>

definition process_entry :: "entries_map \<Rightarrow> val \<times> val \<Rightarrow> results \<Rightarrow> results" where
  "process_entry entries_map pair results =
     (case get_embed (snd pair) of
        None \<Rightarrow> results
      | Some entry \<Rightarrow>
          (case find_field entry HASH_SKIN_MESH_PROPERTIES of
             None \<Rightarrow> results
           | Some smp_field \<Rightarrow>
               (case get_embed (snd smp_field) of
                  None \<Rightarrow> results
                | Some skin_mesh \<Rightarrow> process_skin_mesh entries_map skin_mesh results)))"

text \<open>The first loop: the index from identifier to object, a later pair replacing an
  earlier one with the same key.\<close>

definition index_pair :: "val \<times> val \<Rightarrow> entries_map \<Rightarrow> entries_map" where
  "index_pair pair entries_map =
     (case fst pair of
        Hash key_hash \<Rightarrow>
          (case snd pair of Embed n entry \<Rightarrow> entries_map(key_hash \<mapsto> entry) | _ \<Rightarrow> entries_map)
      | _ \<Rightarrow> entries_map)"

definition build_entries_map :: "(val \<times> val) list \<Rightarrow> entries_map" where
  "build_entries_map items = fold index_pair items Map.empty"

text \<open>\<^verbatim>\<open>extract_textures\<close> of \<^verbatim>\<open>bin_parser.cpp\<close>. The source returns the lines
  \<^verbatim>\<open>key=value\<close> of \<^verbatim>\<open>results\<close> in the iteration order of the unordered map, which
  is not specified; the model returns \<^verbatim>\<open>results\<close> itself, and the empty string of the
  two early returns is the empty mapping.\<close>

definition extract_textures :: "bin \<Rightarrow> results" where
  "extract_textures b =
     (case sections b ''entries'' of
        None \<Rightarrow> Map.empty
      | Some entries \<Rightarrow>
          (case entries of
             Map items \<Rightarrow> fold (process_entry (build_entries_map items)) items Map.empty
           | _ \<Rightarrow> Map.empty))"

section \<open>\<^verbatim>\<open>ritobin_dll.cpp\<close> (and, line by line the same, \<^verbatim>\<open>lol_native.cpp\<close>)\<close>

definition get_string_value :: "val \<Rightarrow> string" where
  "get_string_value v = (case v of String s \<Rightarrow> s | _ \<Rightarrow> '''')"

definition get_hash_value :: "val \<Rightarrow> hash" where
  "get_hash_value v = (case v of Hash h \<Rightarrow> h | Link l \<Rightarrow> l | _ \<Rightarrow> 0)"

text \<open>The loop over \<^verbatim>\<open>prop_embed->items\<close>: every field is visited, so the last field
  with a key decides. The state is \<^verbatim>\<open>(p_name, p_val)\<close>.\<close>

definition read_prop_field :: "field \<Rightarrow> string \<times> string \<Rightarrow> string \<times> string" where
  "read_prop_field pf st =
     (let p_name = (if fst pf = HASH_PROP_NAME then get_string_value (snd pf) else fst st);
          p_val = (if fst pf = HASH_PROP_VALUE then get_string_value (snd pf) else snd st)
      in (p_name, p_val))"

text \<open>The loop over \<^verbatim>\<open>props_list->items\<close>, with its \<^verbatim>\<open>continue\<close> and its
  \<^verbatim>\<open>break\<close>: \<open>Some p_val\<close> when it assigns \<^verbatim>\<open>tex_path\<close>.\<close>

fun scan_props_list :: "val list \<Rightarrow> string option" where
  "scan_props_list [] = None"
| "scan_props_list (prop_elem # rest) =
     (case prop_elem of
        Embed n prop_embed \<Rightarrow>
          (let st = fold read_prop_field prop_embed ('''', '''')
           in if fst st = ''Diffuse_Texture'' \<and> snd st \<noteq> '''' then Some (snd st)
              else scan_props_list rest)
      | _ \<Rightarrow> scan_props_list rest)"

definition follow_material_link :: "entries_map \<Rightarrow> string \<Rightarrow> hash \<Rightarrow> string" where
  "follow_material_link entries_map tex_path linked_mat_hash =
     (if tex_path = '''' \<and> linked_mat_hash \<noteq> 0 then
        (case entries_map linked_mat_hash of
           None \<Rightarrow> tex_path
         | Some mat_entry \<Rightarrow>
             (case find_field mat_entry HASH_PROPERTIES_LIST of
                None \<Rightarrow> tex_path
              | Some props_field \<Rightarrow>
                  (case snd props_field of
                     List props_list \<Rightarrow>
                       (case scan_props_list props_list of Some p \<Rightarrow> p | None \<Rightarrow> tex_path)
                   | _ \<Rightarrow> tex_path)))
      else tex_path)"

text \<open>The loop over \<^verbatim>\<open>override_embed->items\<close>; the state is
  \<^verbatim>\<open>(mat_name, tex_path, linked_mat_hash)\<close>.\<close>

definition read_override_field ::
  "field \<Rightarrow> string \<times> string \<times> hash \<Rightarrow> string \<times> string \<times> hash" where
  "read_override_field prop st =
     (let mat_name = (if fst prop = HASH_NAME then get_string_value (snd prop) else fst st);
          tex_path = (if fst prop = HASH_TEXTURE then get_string_value (snd prop)
                      else fst (snd st));
          linked_mat_hash = (if fst prop = HASH_MATERIAL_LINK then get_hash_value (snd prop)
                             else snd (snd st))
      in (mat_name, tex_path, linked_mat_hash))"

definition read_override :: "field list \<Rightarrow> string \<times> string \<times> hash" where
  "read_override override_embed = fold read_override_field override_embed ('''', '''', 0)"

text \<open>\<^verbatim>\<open>tex_path\<close> before and after the link is followed.\<close>

definition override_texture_rb :: "field list \<Rightarrow> string" where
  "override_texture_rb override_embed = fst (snd (read_override override_embed))"

definition override_path_rb :: "entries_map \<Rightarrow> field list \<Rightarrow> string" where
  "override_path_rb entries_map override_embed =
     follow_material_link entries_map (override_texture_rb override_embed)
       (snd (snd (read_override override_embed)))"

definition process_override_elem :: "entries_map \<Rightarrow> val \<Rightarrow> results \<Rightarrow> results" where
  "process_override_elem entries_map override_elem results =
     (case override_elem of
        Embed n override_embed \<Rightarrow>
          (let mat_name = fst (read_override override_embed);
               tex_path = override_path_rb entries_map override_embed
           in if mat_name \<noteq> '''' \<and> tex_path \<noteq> '''' then results(mat_name \<mapsto> tex_path)
              else results)
      | _ \<Rightarrow> results)"

text \<open>One round of the loop over \<^verbatim>\<open>skin_mesh->items\<close>.\<close>

definition process_sub_field :: "entries_map \<Rightarrow> field \<Rightarrow> results \<Rightarrow> results" where
  "process_sub_field entries_map sub_field results =
     (let results1 =
            (if fst sub_field = HASH_TEXTURE then
               (let tex = get_string_value (snd sub_field)
                in if tex \<noteq> '''' then results(''BASE'' \<mapsto> tex) else results)
             else results)
      in if fst sub_field = HASH_MATERIAL_OVERRIDE then
           (case snd sub_field of
              List override_list \<Rightarrow> fold (process_override_elem entries_map) override_list results1
            | _ \<Rightarrow> results1)
         else results1)"

text \<open>One round of the loop over \<^verbatim>\<open>entry->items\<close>.\<close>

definition process_entry_field :: "entries_map \<Rightarrow> field \<Rightarrow> results \<Rightarrow> results" where
  "process_entry_field entries_map field results =
     (if fst field \<noteq> HASH_SKIN_MESH_PROPERTIES then results
      else (case snd field of
              Embed n skin_mesh \<Rightarrow> fold (process_sub_field entries_map) skin_mesh results
            | _ \<Rightarrow> results))"

definition process_entry_rb :: "entries_map \<Rightarrow> val \<times> val \<Rightarrow> results \<Rightarrow> results" where
  "process_entry_rb entries_map pair results =
     (case snd pair of
        Embed n entry \<Rightarrow> fold (process_entry_field entries_map) entry results
      | _ \<Rightarrow> results)"

text \<open>The first loop of \<^verbatim>\<open>ritobin_dll.cpp\<close> tests both pointers in one condition.\<close>

definition index_pair_rb :: "val \<times> val \<Rightarrow> entries_map \<Rightarrow> entries_map" where
  "index_pair_rb pair entries_map =
     (case fst pair of
        Hash key_hash \<Rightarrow>
          (case snd pair of Embed n entry \<Rightarrow> entries_map(key_hash \<mapsto> entry) | _ \<Rightarrow> entries_map)
      | _ \<Rightarrow> entries_map)"

definition build_entries_map_rb :: "(val \<times> val) list \<Rightarrow> entries_map" where
  "build_entries_map_rb items = fold index_pair_rb items Map.empty"

text \<open>\<^verbatim>\<open>extract_textures\<close> of \<^verbatim>\<open>ritobin_dll.cpp\<close>, returning \<^verbatim>\<open>results\<close> as above.\<close>

definition extract_textures_rb :: "bin \<Rightarrow> results" where
  "extract_textures_rb b =
     (case sections b ''entries'' of
        None \<Rightarrow> Map.empty
      | Some entries \<Rightarrow>
          (case entries of
             Map items \<Rightarrow> fold (process_entry_rb (build_entries_map_rb items)) items Map.empty
           | _ \<Rightarrow> Map.empty))"

section \<open>\<^verbatim>\<open>tex.h\<close> and \<^verbatim>\<open>dds.h\<close>\<close>

type_synonym byte = "8 word"

definition TEX_FORMAT_ETC1 :: byte where "TEX_FORMAT_ETC1 = 0x01"
definition TEX_FORMAT_ETC2 :: byte where "TEX_FORMAT_ETC2 = 0x03"
definition TEX_FORMAT_DXT1 :: byte where "TEX_FORMAT_DXT1 = 0x0A"
definition TEX_FORMAT_DXT5 :: byte where "TEX_FORMAT_DXT5 = 0x0C"
definition TEX_FORMAT_BGRA8 :: byte where "TEX_FORMAT_BGRA8 = 0x14"
definition TEX_FORMAT_RGBA16 :: byte where "TEX_FORMAT_RGBA16 = 0x15"

text \<open>\<^verbatim>\<open>{'T', 'E', 'X', '\0'}\<close> and \<^verbatim>\<open>{'D', 'D', 'S', ' '}\<close>\<close>

definition TEX_MAGIC :: "byte list" where "TEX_MAGIC = [0x54, 0x45, 0x58, 0x00]"
definition DDS_MAGIC :: "byte list" where "DDS_MAGIC = [0x44, 0x44, 0x53, 0x20]"

definition DDS_HEADER_FLAGS_TEXTURE :: "32 word" where "DDS_HEADER_FLAGS_TEXTURE = 0x00001007"
definition DDS_HEADER_FLAGS_MIPMAP :: "32 word" where "DDS_HEADER_FLAGS_MIPMAP = 0x00020000"
definition DDS_FOURCC :: "32 word" where "DDS_FOURCC = 0x00000004"
definition DDS_RGBA :: "32 word" where "DDS_RGBA = 0x00000041"
definition DDS_SURFACE_FLAGS_TEXTURE :: "32 word" where "DDS_SURFACE_FLAGS_TEXTURE = 0x00001000"
definition DDS_SURFACE_FLAGS_MIPMAP :: "32 word" where "DDS_SURFACE_FLAGS_MIPMAP = 0x00400008"

text \<open>The packed structs. \<^verbatim>\<open>sizeof(TEX_HEADER)\<close> is 4 + 2 + 2 + 4 = 12,
  \<^verbatim>\<open>sizeof(DDS_PIXELFORMAT)\<close> is 32 and \<^verbatim>\<open>sizeof(DDS_HEADER)\<close> is
  7 * 4 + 11 * 4 + 32 + 5 * 4 = 124.\<close>

record TEX_HEADER =
  magic :: "byte list"
  image_width :: "16 word"
  image_height :: "16 word"
  unk1 :: byte
  tex_format :: byte
  unk2 :: byte
  has_mipmaps :: byte

text \<open>The fields \<^verbatim>\<open>dwSize\<close> and \<^verbatim>\<open>dwFlags\<close> of the pixel format carry the prefix
  \<open>pf_\<close>, since the header has fields of the same names.\<close>

record DDS_PIXELFORMAT =
  pf_dwSize :: "32 word"
  pf_dwFlags :: "32 word"
  dwFourCC :: "byte list"
  dwRGBBitCount :: "32 word"
  dwRBitMask :: "32 word"
  dwGBitMask :: "32 word"
  dwBBitMask :: "32 word"
  dwABitMask :: "32 word"

record DDS_HEADER =
  dwSize :: "32 word"
  dwFlags :: "32 word"
  dwHeight :: "32 word"
  dwWidth :: "32 word"
  dwPitchOrLinearSize :: "32 word"
  dwDepth :: "32 word"
  dwMipMapCount :: "32 word"
  dwReserved1 :: "32 word list"
  ddspf :: DDS_PIXELFORMAT
  dwCaps :: "32 word"
  dwCaps2 :: "32 word"
  dwCaps3 :: "32 word"
  dwCaps4 :: "32 word"
  dwReserved2 :: "32 word"

definition sizeof_TEX_HEADER :: "32 word" where "sizeof_TEX_HEADER = 12"
definition sizeof_DDS_PIXELFORMAT :: "32 word" where "sizeof_DDS_PIXELFORMAT = 32"
definition sizeof_DDS_HEADER :: "32 word" where "sizeof_DDS_HEADER = 124"

text \<open>The structs are read and written with \<^verbatim>\<open>fread\<close> and \<^verbatim>\<open>memcpy\<close> on a
  little-endian machine (the sources are Windows libraries).\<close>

definition le16 :: "byte \<Rightarrow> byte \<Rightarrow> 16 word" where
  "le16 lo hi = ucast lo OR push_bit 8 (ucast hi)"

definition le32 :: "32 word \<Rightarrow> byte list" where
  "le32 w = [ucast w, ucast (drop_bit 8 w), ucast (drop_bit 16 w), ucast (drop_bit 24 w)]"

text \<open>\<^verbatim>\<open>fread(&tex_header, sizeof(TEX_HEADER), 1, tex_file)\<close> on a file of at least
  12 bytes.\<close>

definition read_tex_header :: "byte list \<Rightarrow> TEX_HEADER" where
  "read_tex_header raw =
     \<lparr> magic = take 4 raw,
       image_width = le16 (raw ! 4) (raw ! 5),
       image_height = le16 (raw ! 6) (raw ! 7),
       unk1 = raw ! 8,
       tex_format = raw ! 9,
       unk2 = raw ! 10,
       has_mipmaps = raw ! 11 \<rparr>"

definition pixelformat_bytes :: "DDS_PIXELFORMAT \<Rightarrow> byte list" where
  "pixelformat_bytes pf =
     le32 (pf_dwSize pf) @ le32 (pf_dwFlags pf) @ dwFourCC pf @ le32 (dwRGBBitCount pf) @
     le32 (dwRBitMask pf) @ le32 (dwGBitMask pf) @ le32 (dwBBitMask pf) @ le32 (dwABitMask pf)"

definition dds_header_bytes :: "DDS_HEADER \<Rightarrow> byte list" where
  "dds_header_bytes h =
     le32 (dwSize h) @ le32 (dwFlags h) @ le32 (dwHeight h) @ le32 (dwWidth h) @
     le32 (dwPitchOrLinearSize h) @ le32 (dwDepth h) @ le32 (dwMipMapCount h) @
     concat (map le32 (dwReserved1 h)) @ pixelformat_bytes (ddspf h) @
     le32 (dwCaps h) @ le32 (dwCaps2 h) @ le32 (dwCaps3 h) @ le32 (dwCaps4 h) @
     le32 (dwReserved2 h)"

section \<open>\<^verbatim>\<open>ritoddstex_dll.c\<close> (and the first half of \<^verbatim>\<open>lol_native.cpp\<close>)\<close>

text \<open>The macro \<^verbatim>\<open>MAX\<close>.\<close>

definition MAX_macro :: "32 word \<Rightarrow> 32 word \<Rightarrow> 32 word" where
  "MAX_macro a b = (if a > b then a else b)"

text \<open>Modelled from the spec: the compiler intrinsic \<^verbatim>\<open>_BitScanReverse\<close>, which is not
  part of the sources. By its documentation it stores the position of the highest set bit
  and returns nonzero, or returns zero when the mask is zero; \<open>Some index\<close> is the
  first, \<open>None\<close> the second.\<close>

fun highest_bit_below :: "32 word \<Rightarrow> nat \<Rightarrow> nat option" where
  "highest_bit_below x 0 = None"
| "highest_bit_below x (Suc n) = (if bit x n then Some n else highest_bit_below x n)"

definition BitScanReverse :: "32 word \<Rightarrow> nat option" where
  "BitScanReverse x = highest_bit_below x 32"

definition clz32 :: "32 word \<Rightarrow> 32 word" where
  "clz32 x = (case BitScanReverse x of Some index \<Rightarrow> 31 - of_nat index | None \<Rightarrow> 32)"

definition calc_mipmap_count :: "32 word \<Rightarrow> 32 word \<Rightarrow> 32 word" where
  "calc_mipmap_count width height = (let max_dim = MAX_macro width height in 32 - clz32 max_dim)"

text \<open>\<^verbatim>\<open>lol_native.cpp\<close> counts with a loop instead:
  \<^verbatim>\<open>while (max_dim > 0) { count++; max_dim >>= 1; }\<close>\<close>

function count_shifts :: "32 word \<Rightarrow> 32 word \<Rightarrow> 32 word" where
  "count_shifts max_dim count =
     (if max_dim > 0 then count_shifts (drop_bit 1 max_dim) (count + 1) else count)"
  by pat_completeness auto
termination
proof (relation "measure (\<lambda>(max_dim, count). unat max_dim)")
  show "wf (measure (\<lambda>(max_dim :: 32 word, count :: 32 word). unat max_dim))"
    by simp
next
  fix max_dim count :: "32 word"
  assume "0 < max_dim"
  then have "0 < unat max_dim"
    by (simp add: word_less_nat_alt)
  then have "unat max_dim div 2 < unat max_dim"
    by simp
  moreover have "unat (drop_bit 1 max_dim) = unat max_dim div 2"
    using unat_div_distrib [of max_dim 2] by (simp add: drop_bit_eq_div)
  ultimately show "((drop_bit 1 max_dim, count + 1), (max_dim, count))
               \<in> measure (\<lambda>(max_dim, count). unat max_dim)"
    by simp
qed

definition calc_mipmap_count_ln :: "32 word \<Rightarrow> 32 word \<Rightarrow> 32 word" where
  "calc_mipmap_count_ln width height =
     (let max_dim = (if width > height then width else height) in count_shifts max_dim 0)"

text \<open>Both helpers return \<^verbatim>\<open>int\<close>, and the callers store the value in a
  \<^verbatim>\<open>uint32_t\<close>.\<close>

definition get_bytes_per_block :: "byte \<Rightarrow> 32 word" where
  "get_bytes_per_block format =
     (if format = TEX_FORMAT_DXT1 then 8
      else if format = TEX_FORMAT_DXT5 then 16
      else if format = TEX_FORMAT_BGRA8 then 4
      else if format = TEX_FORMAT_RGBA16 then 8
      else 0)"

definition get_block_size :: "byte \<Rightarrow> 32 word" where
  "get_block_size format =
     (if format = TEX_FORMAT_DXT1 \<or> format = TEX_FORMAT_DXT5 then 4
      else if format = TEX_FORMAT_BGRA8 \<or> format = TEX_FORMAT_RGBA16 then 1
      else 1)"

text \<open>Memory obtained from \<^verbatim>\<open>malloc\<close> is a list of cells, \<open>None\<close> for a byte that
  was never written. \<^verbatim>\<open>memcpy\<close> into it at offset \<open>ptr\<close> is \<open>None\<close> when it would
  write past the end of the buffer, where the source has undefined behaviour.\<close>

type_synonym buffer = "byte option list"

definition memcpy :: "buffer \<Rightarrow> nat \<Rightarrow> byte list \<Rightarrow> buffer option" where
  "memcpy dst ptr src =
     (if ptr + length src \<le> length dst
      then Some (take ptr dst @ map Some src @ drop (ptr + length src) dst)
      else None)"

text \<open>\<^verbatim>\<open>memcpy(ptr, src + off, n)\<close>, which also must not read past the end of
  \<open>src\<close>.\<close>

definition memcpy_from :: "buffer \<Rightarrow> nat \<Rightarrow> byte list \<Rightarrow> nat \<Rightarrow> nat \<Rightarrow> buffer option" where
  "memcpy_from dst ptr src off n =
     (if off + n \<le> length src then memcpy dst ptr (take n (drop off src)) else None)"

text \<open>The \<^verbatim>\<open>switch\<close> on the format: the pixel format and \<^verbatim>\<open>need_dx10\<close>, or
  \<open>None\<close> in the \<^verbatim>\<open>default\<close> case. The four-character codes are
  \<^verbatim>\<open>"DXT1"\<close>, \<^verbatim>\<open>"DXT5"\<close> and \<^verbatim>\<open>"DX10"\<close>.\<close>

definition pixel_format :: "byte \<Rightarrow> (DDS_PIXELFORMAT \<times> bool) option" where
  "pixel_format format =
     (let ddspf = \<lparr> pf_dwSize = sizeof_DDS_PIXELFORMAT, pf_dwFlags = 0,
                    dwFourCC = [0, 0, 0, 0], dwRGBBitCount = 0, dwRBitMask = 0,
                    dwGBitMask = 0, dwBBitMask = 0, dwABitMask = 0 \<rparr>
      in if format = TEX_FORMAT_DXT1 then
           Some (ddspf\<lparr> pf_dwFlags := DDS_FOURCC, dwFourCC := [0x44, 0x58, 0x54, 0x31] \<rparr>, False)
         else if format = TEX_FORMAT_DXT5 then
           Some (ddspf\<lparr> pf_dwFlags := DDS_FOURCC, dwFourCC := [0x44, 0x58, 0x54, 0x35] \<rparr>, False)
         else if format = TEX_FORMAT_BGRA8 then
           Some (ddspf\<lparr> pf_dwFlags := DDS_RGBA, dwRGBBitCount := 32,
                        dwBBitMask := 0x000000ff, dwGBitMask := 0x0000ff00,
                        dwRBitMask := 0x00ff0000, dwABitMask := 0xff000000 \<rparr>, False)
         else if format = TEX_FORMAT_RGBA16 then
           Some (ddspf\<lparr> pf_dwFlags := DDS_FOURCC, dwFourCC := [0x44, 0x58, 0x31, 0x30] \<rparr>, True)
         else None)"

text \<open>The header and \<^verbatim>\<open>mipmap_count\<close>; \<open>calc\<close> is the \<^verbatim>\<open>calc_mipmap_count\<close> of
  the file.\<close>

definition make_dds_header ::
  "(32 word \<Rightarrow> 32 word \<Rightarrow> 32 word) \<Rightarrow> TEX_HEADER \<Rightarrow> DDS_PIXELFORMAT \<Rightarrow> DDS_HEADER \<times> 32 word" where
  "make_dds_header calc tex_header pf =
     (let dds_header =
            \<lparr> dwSize = sizeof_DDS_HEADER, dwFlags = DDS_HEADER_FLAGS_TEXTURE,
              dwHeight = ucast (image_height tex_header),
              dwWidth = ucast (image_width tex_header),
              dwPitchOrLinearSize = 0, dwDepth = 0, dwMipMapCount = 0,
              dwReserved1 = replicate 11 0, ddspf = pf,
              dwCaps = DDS_SURFACE_FLAGS_TEXTURE, dwCaps2 = 0, dwCaps3 = 0, dwCaps4 = 0,
              dwReserved2 = 0 \<rparr>
      in if has_mipmaps tex_header \<noteq> 0 then
           (let mipmap_count =
                  calc (ucast (image_width tex_header)) (ucast (image_height tex_header))
            in (dds_header\<lparr> dwFlags := dwFlags dds_header OR DDS_HEADER_FLAGS_MIPMAP,
                             dwCaps := dwCaps dds_header OR DDS_SURFACE_FLAGS_MIPMAP,
                             dwMipMapCount := mipmap_count \<rparr>, mipmap_count))
         else (dds_header, 0))"

definition dx10_header :: "byte list" where
  "dx10_header = (replicate 20 0)[0 := 0x0d, 4 := 0x03, 12 := 0x01, 16 := 0x01]"

text \<open>The magic, the header and the extended header; the result is the buffer and
  \<^verbatim>\<open>ptr\<close>, as an offset into it.\<close>

definition write_headers :: "buffer \<Rightarrow> DDS_HEADER \<Rightarrow> bool \<Rightarrow> (buffer \<times> nat) option" where
  "write_headers dds_data dds_header need_dx10 =
     (case memcpy dds_data 0 DDS_MAGIC of
        None \<Rightarrow> None
      | Some d1 \<Rightarrow>
          (case memcpy d1 4 (dds_header_bytes dds_header) of
             None \<Rightarrow> None
           | Some d2 \<Rightarrow>
               (if need_dx10 then
                  (case memcpy d2 (4 + unat sizeof_DDS_HEADER) dx10_header of
                     None \<Rightarrow> None
                   | Some d3 \<Rightarrow> Some (d3, 4 + unat sizeof_DDS_HEADER + 20))
                else Some (d2, 4 + unat sizeof_DDS_HEADER))))"

text \<open>\<^verbatim>\<open>mip_size\<close> of level \<open>i\<close>, in 32-bit unsigned arithmetic. The width and the
  height are 16 bits wide and are shifted as \<^verbatim>\<open>int\<close>; \<open>i\<close> stays below
  \<^verbatim>\<open>mipmap_count\<close>, hence below 32.\<close>

definition mip_size :: "TEX_HEADER \<Rightarrow> nat \<Rightarrow> 32 word" where
  "mip_size tex_header i =
     (let block_size = get_block_size (tex_format tex_header);
          bytes_per_block = get_bytes_per_block (tex_format tex_header);
          mip_width = MAX_macro (drop_bit i (ucast (image_width tex_header))) 1;
          mip_height = MAX_macro (drop_bit i (ucast (image_height tex_header))) 1;
          block_width = (mip_width + block_size - 1) div block_size;
          block_height = (mip_height + block_size - 1) div block_size
      in bytes_per_block * block_width * block_height)"

text \<open>The loop \<^verbatim>\<open>for (uint32_t i = 0; i < mipmap_count; i++)\<close>. \<^verbatim>\<open>current_offset\<close>
  is an \<^verbatim>\<open>int32_t\<close>: the subtraction wraps, and the test reads the result as
  signed.\<close>

function mip_loop ::
  "TEX_HEADER \<Rightarrow> byte list \<Rightarrow> nat \<Rightarrow> nat \<Rightarrow> 32 word \<Rightarrow> nat \<Rightarrow> buffer \<Rightarrow> buffer option" where
  "mip_loop tex_header tex_data mipmap_count i current_offset ptr dds_data =
     (if i < mipmap_count then
        (let current_offset' = current_offset - mip_size tex_header i
         in if sint current_offset' < 0 then Some dds_data
            else (case memcpy_from dds_data ptr tex_data (unat current_offset')
                         (unat (mip_size tex_header i)) of
                    None \<Rightarrow> None
                  | Some dds_data' \<Rightarrow>
                      mip_loop tex_header tex_data mipmap_count (Suc i) current_offset'
                        (ptr + unat (mip_size tex_header i)) dds_data'))
      else Some dds_data)"
  by pat_completeness auto
termination
  by (relation "measure (\<lambda>(tex_header, tex_data, mipmap_count, i, rest). mipmap_count - i)")
    auto

declare mip_loop.simps [simp del]

definition copy_payload ::
  "TEX_HEADER \<Rightarrow> 32 word \<Rightarrow> byte list \<Rightarrow> 32 word \<Rightarrow> nat \<Rightarrow> buffer \<Rightarrow> buffer option" where
  "copy_payload tex_header mipmap_count tex_data tex_data_size ptr dds_data =
     (if has_mipmaps tex_header \<noteq> 0 \<and> mipmap_count > 0 then
        mip_loop tex_header tex_data (unat mipmap_count) 0 tex_data_size ptr dds_data
      else memcpy dds_data ptr tex_data)"

text \<open>The failures and the code each one returns, as the comment above
  \<^verbatim>\<open>tex_to_dds_bytes\<close> lists them.\<close>

datatype failure = OpenFailure | InvalidInput | UnsupportedFormat | AllocationFailure

fun status_code :: "failure \<Rightarrow> int" where
  "status_code OpenFailure = -1"
| "status_code InvalidInput = -2"
| "status_code UnsupportedFormat = -3"
| "status_code AllocationFailure = -4"

record dds_out =
  out_data :: buffer
  out_size :: "32 word"

text \<open>\<^verbatim>\<open>tex_to_dds_bytes\<close>. The file at \<^verbatim>\<open>tex_path\<close> is its content, or \<open>None\<close>
  when it cannot be opened; \<open>dds_alloc\<close> and \<open>tex_alloc\<close> say whether the two calls of
  \<^verbatim>\<open>malloc\<close> succeed. The result is \<open>Some (Inl f)\<close> for the return of
  \<open>status_code f\<close>, \<open>Some (Inr out)\<close> for the return of 0 with \<^verbatim>\<open>*out_data\<close> and
  \<^verbatim>\<open>*out_size\<close>, and \<open>None\<close> when a \<^verbatim>\<open>memcpy\<close> leaves its buffer.\<close>

definition tex_to_dds_bytes_with ::
  "(32 word \<Rightarrow> 32 word \<Rightarrow> 32 word) \<Rightarrow> byte list option \<Rightarrow> bool \<Rightarrow> bool
     \<Rightarrow> (failure + dds_out) option" where
  "tex_to_dds_bytes_with calc tex_file dds_alloc tex_alloc =
     (case tex_file of
        None \<Rightarrow> Some (Inl OpenFailure)
      | Some raw \<Rightarrow>
          (let file_size = (of_nat (length raw) :: 32 word)
           in if file_size < sizeof_TEX_HEADER \<or> length raw < unat sizeof_TEX_HEADER \<or>
                 take 3 raw \<noteq> take 3 TEX_MAGIC
              then Some (Inl InvalidInput)
              else
                (let tex_header = read_tex_header raw
                 in case pixel_format (tex_format tex_header) of
                      None \<Rightarrow> Some (Inl UnsupportedFormat)
                    | Some (pf, need_dx10) \<Rightarrow>
                        (let (dds_header, mipmap_count) = make_dds_header calc tex_header pf;
                             tex_data_size = file_size - sizeof_TEX_HEADER;
                             header_size = 4 + sizeof_DDS_HEADER + (if need_dx10 then 20 else 0);
                             total_size = header_size + tex_data_size
                         in if \<not> dds_alloc then Some (Inl AllocationFailure)
                            else
                              (case write_headers (replicate (unat total_size) None)
                                      dds_header need_dx10 of
                                 None \<Rightarrow> None
                               | Some (dds_data, ptr) \<Rightarrow>
                                   (if \<not> tex_alloc then Some (Inl AllocationFailure)
                                    else
                                      (let tex_data = take (unat tex_data_size)
                                                        (drop (unat sizeof_TEX_HEADER) raw)
                                       in if length tex_data \<noteq> unat tex_data_size
                                          then Some (Inl InvalidInput)
                                          else
                                            (case copy_payload tex_header mipmap_count tex_data
                                                    tex_data_size ptr dds_data of
                                               None \<Rightarrow> None
                                             | Some dds_data' \<Rightarrow>
                                                 Some (Inr \<lparr> out_data = dds_data',
                                                             out_size = total_size \<rparr>)))))))))"

definition tex_to_dds_bytes :: "byte list option \<Rightarrow> bool \<Rightarrow> bool \<Rightarrow> (failure + dds_out) option" where
  "tex_to_dds_bytes = tex_to_dds_bytes_with calc_mipmap_count"

text \<open>\<^verbatim>\<open>tex_to_dds_bytes\<close> of \<^verbatim>\<open>lol_native.cpp\<close>, which differs in
  \<^verbatim>\<open>calc_mipmap_count\<close> only.\<close>

definition tex_to_dds_bytes_ln :: "byte list option \<Rightarrow> bool \<Rightarrow> bool \<Rightarrow> (failure + dds_out) option" where
  "tex_to_dds_bytes_ln = tex_to_dds_bytes_with calc_mipmap_count_ln"

section \<open>The levels that the converter copies\<close>

text \<open>The copy of the levels as the specification words it, on lists and natural numbers:
  starting with the whole payload, each level takes its bytes from the end of what is left,
  and the copy stops at the first level that is larger than what is left.\<close>

function levels_from_end :: "TEX_HEADER \<Rightarrow> nat \<Rightarrow> nat \<Rightarrow> byte list \<Rightarrow> byte list" where
  "levels_from_end tex_header levels i data =
     (if i < levels \<and> unat (mip_size tex_header i) \<le> length data then
        drop (length data - unat (mip_size tex_header i)) data @
        levels_from_end tex_header levels (Suc i)
          (take (length data - unat (mip_size tex_header i)) data)
      else [])"
  by pat_completeness auto
termination
  by (relation "measure (\<lambda>(tex_header, levels, i, data). levels - i)") auto

declare levels_from_end.simps [simp del]

text \<open>The bytes that \<^verbatim>\<open>write_headers\<close> puts at the start of the buffer.\<close>

definition header_bytes :: "DDS_HEADER \<Rightarrow> bool \<Rightarrow> byte list" where
  "header_bytes dds_header need_dx10 =
     DDS_MAGIC @ dds_header_bytes dds_header @ (if need_dx10 then dx10_header else [])"

section \<open>Example documents\<close>

text \<open>A property object of a material, a material entry under the identifier 7 with given
  sampler values, an override of the submesh \<open>Body\<close> with a given direct texture field
  value and link field value, and a document of one skinned entry with a given override list and
  that material entry.\<close>

definition prop_object :: "string \<Rightarrow> string \<Rightarrow> val" where
  "prop_object name v = Embed 0 [(HASH_PROP_NAME, String name), (HASH_PROP_VALUE, String v)]"

definition material_entry :: "val \<Rightarrow> val \<times> val" where
  "material_entry sampler_values = (Hash 7, Embed 0 [(HASH_SAMPLER_VALUES, sampler_values)])"

definition body_fields :: "val \<Rightarrow> val \<Rightarrow> field list" where
  "body_fields texture link =
     [(HASH_SUBMESH, String ''Body''), (HASH_TEXTURE, texture), (HASH_MATERIAL_LINK, link)]"

definition body_override :: "val \<Rightarrow> val \<Rightarrow> val" where
  "body_override texture link = Embed 0 (body_fields texture link)"

definition skin_entry :: "val \<Rightarrow> val \<times> val" where
  "skin_entry overrides =
     (Hash 1, Embed 0 [(HASH_SKIN_MESH_PROPERTIES,
                        Embed 0 [(HASH_TEXTURE, String ''base.dds''),
                                 (HASH_MATERIAL_OVERRIDE, overrides)])])"

definition example_doc :: "val \<Rightarrow> val \<Rightarrow> bin" where
  "example_doc overrides sampler_values =
     \<lparr> sections = [''entries'' \<mapsto> Map [skin_entry overrides, material_entry sampler_values]] \<rparr>"

text \<open>Three property objects, two of them diffuse textures, and the index of a document
  whose material 7 lists them.\<close>

definition diffuse_props :: "val list" where
  "diffuse_props =
     [prop_object ''Normal_Map'' ''n.dds'', prop_object ''Diffuse_Texture'' ''first.dds'',
      prop_object ''Diffuse_Texture'' ''second.dds'']"

definition diffuse_index :: entries_map where
  "diffuse_index = build_entries_map [material_entry (List diffuse_props)]"

section \<open>Example containers\<close>

text \<open>A container with a width and a height below 256, and the pixel format that the
  converter builds for the first compressed format.\<close>

definition tex_bytes :: "byte \<Rightarrow> byte \<Rightarrow> byte \<Rightarrow> byte \<Rightarrow> byte list \<Rightarrow> byte list" where
  "tex_bytes w h format mips payload =
     [0x54, 0x45, 0x58, 0x00, w, 0, h, 0, 0, format, 0, mips] @ payload"

definition dxt1_format :: DDS_PIXELFORMAT where
  "dxt1_format = fst (the (pixel_format TEX_FORMAT_DXT1))"

text \<open>A level of \<open>n\<close> bytes counting up from \<open>b\<close>, the pixel format that the converter
  builds for the 64-bit format, and the full chain of an 8 by 8 image in the first compressed
  format, largest level first.\<close>

definition level_bytes :: "byte \<Rightarrow> nat \<Rightarrow> byte list" where
  "level_bytes b n = map (\<lambda>k. b + of_nat k) [0..<n]"

definition rgba16_format :: DDS_PIXELFORMAT where
  "rgba16_format = fst (the (pixel_format TEX_FORMAT_RGBA16))"

definition chain_8x8 :: "byte list list" where
  "chain_8x8 = [level_bytes 0x10 32, level_bytes 0x40 8, level_bytes 0x50 8, level_bytes 0x60 8]"

text \<open>A header alone, for a 30000 by 30000 image of 32-bit pixels with mipmaps.\<close>

definition big_bgra8 :: "byte list" where
  "big_bgra8 = [0x54, 0x45, 0x58, 0x00, 0x30, 0x75, 0x30, 0x75, 0x00, 0x14, 0x00, 0x01]"

section \<open>Documents on which the two extractors agree\<close>

text \<open>The conditions under which the two extractors are proved to agree. They describe
  documents and are not taken from the sources: no object that is read repeats a field hash;
  a property list is not in the second list encoding; the link of an override is not a plain
  hash; no override is named \<open>BASE\<close>.\<close>

definition distinct_keys :: "field list \<Rightarrow> bool" where
  "distinct_keys fs = distinct (map fst fs)"

definition prop_ok :: "val \<Rightarrow> bool" where
  "prop_ok v = (case v of Embed n fs \<Rightarrow> distinct_keys fs | _ \<Rightarrow> True)"

definition material_ok :: "field list \<Rightarrow> bool" where
  "material_ok fs =
     (case find_field fs HASH_SAMPLER_VALUES of
        None \<Rightarrow> True
      | Some props_field \<Rightarrow>
          (case snd props_field of
             List props \<Rightarrow> list_all prop_ok props
           | List2 props \<Rightarrow> False
           | _ \<Rightarrow> True))"

definition override_ok :: "val \<Rightarrow> bool" where
  "override_ok v =
     (case v of
        Embed n fs \<Rightarrow>
          distinct_keys fs \<and> override_name fs \<noteq> ''BASE'' \<and>
          (case find_field fs HASH_MATERIAL_LINK of
             None \<Rightarrow> True
           | Some mat_field \<Rightarrow> (case snd mat_field of Hash h \<Rightarrow> False | _ \<Rightarrow> True))
      | _ \<Rightarrow> True)"

definition skin_mesh_ok :: "field list \<Rightarrow> bool" where
  "skin_mesh_ok fs =
     (distinct_keys fs \<and>
      (case find_field fs HASH_MATERIAL_OVERRIDE of
         None \<Rightarrow> True
       | Some mo_field \<Rightarrow>
           (case snd mo_field of List overrides \<Rightarrow> list_all override_ok overrides | _ \<Rightarrow> True)))"

definition entry_ok :: "val \<Rightarrow> bool" where
  "entry_ok v =
     (case v of
        Embed n fs \<Rightarrow>
          distinct_keys fs \<and> material_ok fs \<and>
          (case find_field fs HASH_SKIN_MESH_PROPERTIES of
             None \<Rightarrow> True
           | Some smp_field \<Rightarrow>
               (case snd smp_field of Embed m skin_mesh \<Rightarrow> skin_mesh_ok skin_mesh | _ \<Rightarrow> True))
      | _ \<Rightarrow> True)"

definition agreeable :: "bin \<Rightarrow> bool" where
  "agreeable b =
     (case sections b ''entries'' of
        None \<Rightarrow> True
      | Some entries \<Rightarrow>
          (case entries of
             Map items \<Rightarrow> list_all (\<lambda>pair. entry_ok (snd pair)) items
           | _ \<Rightarrow> True))"

section \<open>Evaluation rules\<close>

lemmas hash_defs =
  HASH_SKIN_MESH_PROPERTIES_def HASH_TEXTURE_def HASH_MATERIAL_OVERRIDE_def HASH_SUBMESH_def
  HASH_MATERIAL_LINK_def HASH_SAMPLER_VALUES_def HASH_PROP_NAME_def HASH_PROP_VALUE_def
  HASH_NAME_def HASH_PROPERTIES_LIST_def

lemmas example_defs =
  prop_object_def material_entry_def body_fields_def body_override_def skin_entry_def
  example_doc_def diffuse_props_def diffuse_index_def

lemmas bin_parser_defs =
  extract_textures_def build_entries_map_def index_pair_def process_entry_def
  process_skin_mesh_def process_override_def override_path_def override_name_def
  override_texture_def override_link_def follow_link_def process_prop_def
  get_string_def get_link_def get_embed_def get_list_def get_list2_def

lemmas ritobin_defs =
  extract_textures_rb_def build_entries_map_rb_def index_pair_rb_def process_entry_rb_def
  process_entry_field_def process_sub_field_def process_override_elem_def override_path_rb_def
  override_texture_rb_def read_override_def read_override_field_def follow_material_link_def
  read_prop_field_def get_string_value_def get_hash_value_def

section \<open>The extractors\<close>

text \<open>
  C9. A document with no section \<open>entries\<close>, or whose section \<open>entries\<close> is not a map,
  gives the empty mapping, in \<^verbatim>\<open>bin_parser.cpp\<close> and in \<^verbatim>\<open>ritobin_dll.cpp\<close>. The
  extractors have no failure to report: their result is always a mapping.
\<close>

theorem extract_without_entries:
  assumes "sections b ''entries'' = None \<or> (\<forall>items. sections b ''entries'' \<noteq> Some (Map items))"
  shows "extract_textures b = Map.empty \<and> extract_textures_rb b = Map.empty"
  using assms
  by (auto simp: extract_textures_def extract_textures_rb_def split: option.splits val.splits)

theorem extract_without_entries_witness:
  "(sections \<lparr>sections = Map.empty\<rparr> ''entries'' = None \<or>
      (\<forall>items. sections \<lparr>sections = Map.empty\<rparr> ''entries'' \<noteq> Some (Map items))) \<and>
   extract_textures \<lparr>sections = Map.empty\<rparr> = Map.empty \<and>
   extract_textures_rb \<lparr>sections = Map.empty\<rparr> = Map.empty \<and>
   (sections \<lparr>sections = [''entries'' \<mapsto> List [String ''x'']]\<rparr> ''entries'' = None \<or>
      (\<forall>items. sections \<lparr>sections = [''entries'' \<mapsto> List [String ''x'']]\<rparr> ''entries''
                 \<noteq> Some (Map items))) \<and>
   extract_textures \<lparr>sections = [''entries'' \<mapsto> List [String ''x'']]\<rparr> = Map.empty \<and>
   extract_textures_rb \<lparr>sections = [''entries'' \<mapsto> List [String ''x'']]\<rparr> = Map.empty"
  using extract_without_entries [of "\<lparr>sections = Map.empty\<rparr>"]
    extract_without_entries [of "\<lparr>sections = [''entries'' \<mapsto> List [String ''x'']]\<rparr>"]
  by simp

text \<open>
  C7. An override whose direct texture is not empty keeps it as its path whatever the index
  of linked objects holds, so the link is not followed; the path is recorded under the name
  of the override when that name is not empty. This holds in both extractors, each with its
  own reading of the direct texture.
\<close>

theorem direct_texture_wins:
  "(override_texture ov \<noteq> '''' \<longrightarrow>
      override_path em ov = override_texture ov \<and>
      process_override em (Embed n ov) results =
        (if override_name ov \<noteq> '''' then results(override_name ov \<mapsto> override_texture ov)
         else results)) \<and>
   (override_texture_rb ov \<noteq> '''' \<longrightarrow>
      override_path_rb em ov = override_texture_rb ov \<and>
      process_override_elem em (Embed n ov) results =
        (if fst (read_override ov) \<noteq> ''''
         then results(fst (read_override ov) \<mapsto> override_texture_rb ov)
         else results))"
  by (simp add: override_path_def follow_link_def process_override_def get_embed_def
      override_path_rb_def follow_material_link_def process_override_elem_def)

theorem direct_texture_wins_witness:
  "override_texture (body_fields (String ''direct.dds'') (Link 7)) \<noteq> '''' \<and>
   override_texture_rb (body_fields (String ''direct.dds'') (Link 7)) \<noteq> '''' \<and>
   follow_link diffuse_index '''' 7 = ''first.dds'' \<and>
   override_path diffuse_index (body_fields (String ''direct.dds'') (Link 7)) = ''direct.dds'' \<and>
   override_path_rb diffuse_index (body_fields (String ''direct.dds'') (Link 7)) = ''direct.dds'' \<and>
   process_override diffuse_index (body_override (String ''direct.dds'') (Link 7)) Map.empty =
     [''Body'' \<mapsto> ''direct.dds''] \<and>
   process_override_elem diffuse_index (body_override (String ''direct.dds'') (Link 7)) Map.empty =
     [''Body'' \<mapsto> ''direct.dds'']"
  using direct_texture_wins [of "body_fields (String ''direct.dds'') (Link 7)" diffuse_index 0
      Map.empty]
  by (simp add: example_defs bin_parser_defs ritobin_defs hash_defs)

text \<open>
  C2. \<^verbatim>\<open>bin_parser.cpp\<close> announces \<^verbatim>\<open>// Try List, List2, then Map\<close> and then
  tests for a list and for a second-encoding list only. With the sampler values of the linked
  material in a map the override gets no path, although the same property objects in a list
  of either encoding give the first diffuse texture.
\<close>

theorem sampler_values_in_a_map_are_skipped:
  "extract_textures
     (example_doc (List [body_override (String '''') (Link 7)])
        (Map (map (Pair (String ''key'')) diffuse_props))) ''Body'' = None \<and>
   extract_textures
     (example_doc (List [body_override (String '''') (Link 7)]) (List diffuse_props)) ''Body'' =
     Some ''first.dds'' \<and>
   extract_textures
     (example_doc (List [body_override (String '''') (Link 7)]) (List2 diffuse_props)) ''Body'' =
     Some ''first.dds''"
  by (simp add: example_defs bin_parser_defs hash_defs)

subsection \<open>Reading fields\<close>

lemma get_string_value_eq: "get_string_value = get_string"
  by (rule ext) (simp add: get_string_value_def get_string_def)

lemma find_field_absent: "h \<notin> fst ` set fs \<Longrightarrow> find_field fs h = None"
  by (induction fs) auto

lemma find_field_append:
  "find_field (xs @ ys) h = (case find_field xs h of Some f \<Rightarrow> Some f | None \<Rightarrow> find_field ys h)"
  by (induction xs) auto

text \<open>
  C4. Both extractors test the override field for the first list encoding only. A list in the
  second encoding is not processed at all: the skin mesh properties give what they give with
  an empty list in that field, in \<^verbatim>\<open>bin_parser.cpp\<close> and in \<^verbatim>\<open>ritobin_dll.cpp\<close>.
\<close>

theorem second_encoding_override_list_is_skipped:
  "process_skin_mesh em (fs1 @ (HASH_MATERIAL_OVERRIDE, List2 items) # fs2) r =
   process_skin_mesh em (fs1 @ (HASH_MATERIAL_OVERRIDE, List []) # fs2) r \<and>
   fold (process_sub_field em) (fs1 @ (HASH_MATERIAL_OVERRIDE, List2 items) # fs2) r =
   fold (process_sub_field em) (fs1 @ (HASH_MATERIAL_OVERRIDE, List []) # fs2) r"
proof
  have ne: "HASH_MATERIAL_OVERRIDE \<noteq> HASH_TEXTURE"
    by (simp add: hash_defs)
  then have t: "find_field (fs1 @ (HASH_MATERIAL_OVERRIDE, List2 items) # fs2) HASH_TEXTURE =
                find_field (fs1 @ (HASH_MATERIAL_OVERRIDE, List []) # fs2) HASH_TEXTURE"
    by (simp add: find_field_append split: option.splits)
  have m: "find_field (fs1 @ (HASH_MATERIAL_OVERRIDE, v) # fs2) HASH_MATERIAL_OVERRIDE =
             (case find_field fs1 HASH_MATERIAL_OVERRIDE of
                Some f \<Rightarrow> Some f | None \<Rightarrow> Some (HASH_MATERIAL_OVERRIDE, v))" for v
    by (simp add: find_field_append split: option.splits)
  show "process_skin_mesh em (fs1 @ (HASH_MATERIAL_OVERRIDE, List2 items) # fs2) r =
        process_skin_mesh em (fs1 @ (HASH_MATERIAL_OVERRIDE, List []) # fs2) r"
    by (simp add: process_skin_mesh_def t m get_list_def split: option.splits)
  have "process_sub_field em (HASH_MATERIAL_OVERRIDE, List2 items) r' =
        process_sub_field em (HASH_MATERIAL_OVERRIDE, List []) r'" for r'
    using ne by (simp add: process_sub_field_def)
  then show "fold (process_sub_field em) (fs1 @ (HASH_MATERIAL_OVERRIDE, List2 items) # fs2) r =
        fold (process_sub_field em) (fs1 @ (HASH_MATERIAL_OVERRIDE, List []) # fs2) r"
    by simp
qed

text \<open>The same override list therefore gives two different results in the two encodings.\<close>

theorem second_encoding_override_list_differs:
  "extract_textures
     (example_doc (List2 [body_override (String ''direct.dds'') (Link 7)]) (List diffuse_props)) \<noteq>
   extract_textures
     (example_doc (List [body_override (String ''direct.dds'') (Link 7)]) (List diffuse_props))"
proof -
  have "extract_textures
          (example_doc (List2 [body_override (String ''direct.dds'') (Link 7)])
             (List diffuse_props)) ''Body'' = None"
    by (simp add: example_defs bin_parser_defs hash_defs)
  moreover have "extract_textures
          (example_doc (List [body_override (String ''direct.dds'') (Link 7)])
             (List diffuse_props)) ''Body'' = Some ''direct.dds''"
    by (simp add: example_defs bin_parser_defs hash_defs)
  ultimately show ?thesis
    by (metis option.distinct(1))
qed

subsection \<open>The agreement of the two extractors\<close>

lemmas agreeable_defs =
  agreeable_def entry_ok_def skin_mesh_ok_def override_ok_def material_ok_def prop_ok_def
  distinct_keys_def

lemma fold_read_prop_field:
  "distinct_keys fs \<Longrightarrow>
   fold read_prop_field fs st =
     ((case find_field fs HASH_PROP_NAME of Some pn \<Rightarrow> get_string (snd pn) | None \<Rightarrow> fst st),
      (case find_field fs HASH_PROP_VALUE of Some pv \<Rightarrow> get_string (snd pv) | None \<Rightarrow> snd st))"
proof (induction fs arbitrary: st)
  case Nil
  then show ?case by simp
next
  case (Cons f fs)
  then have d: "distinct_keys fs" and n: "fst f \<notin> fst ` set fs"
    by (simp_all add: distinct_keys_def)
  have r: "fst (read_prop_field f st) =
             (if fst f = HASH_PROP_NAME then get_string (snd f) else fst st)"
    "snd (read_prop_field f st) =
             (if fst f = HASH_PROP_VALUE then get_string (snd f) else snd st)"
    by (simp_all add: read_prop_field_def get_string_value_eq)
  show ?case
    using Cons.IH [OF d, of "read_prop_field f st"] find_field_absent [OF n]
    by (auto simp: r split: option.splits)
qed

lemma scan_props_list_eq:
  "list_all prop_ok props \<Longrightarrow> scan_props_list props = scan_props props"
proof (induction props)
  case Nil
  then show ?case by simp
next
  case (Cons p ps)
  then have ih: "scan_props_list ps = scan_props ps" by simp
  show ?case
  proof (cases p)
    case (Embed n fs)
    with Cons.prems have "distinct_keys fs" by (simp add: prop_ok_def)
    from fold_read_prop_field [OF this, of "('''', '''')"] Embed ih show ?thesis
      by (auto simp: process_prop_def get_embed_def Let_def split: option.splits)
  qed (simp_all add: ih process_prop_def get_embed_def)
qed

lemma follow_material_link_eq:
  assumes "\<And>h fs. em h = Some fs \<Longrightarrow> material_ok fs"
  shows "follow_material_link em t h = follow_link em t h"
proof (cases "em h")
  case None
  then show ?thesis by (simp add: follow_material_link_def follow_link_def)
next
  case (Some fs)
  with assms have "material_ok fs" by blast
  with Some show ?thesis
    by (auto simp: follow_material_link_def follow_link_def material_ok_def HASH_PROPERTIES_LIST_def HASH_SAMPLER_VALUES_def get_list_def
        get_list2_def scan_props_list_eq split: option.splits val.splits)
qed

lemma fold_read_override_field:
  "distinct_keys fs \<Longrightarrow>
   fold read_override_field fs st =
     ((case find_field fs HASH_SUBMESH of Some nf \<Rightarrow> get_string (snd nf) | None \<Rightarrow> fst st),
      (case find_field fs HASH_TEXTURE of Some tf \<Rightarrow> get_string (snd tf)
       | None \<Rightarrow> fst (snd st)),
      (case find_field fs HASH_MATERIAL_LINK of Some mf \<Rightarrow> get_hash_value (snd mf)
       | None \<Rightarrow> snd (snd st)))"
proof (induction fs arbitrary: st)
  case Nil
  then show ?case by simp
next
  case (Cons f fs)
  then have d: "distinct_keys fs" and n: "fst f \<notin> fst ` set fs"
    by (simp_all add: distinct_keys_def)
  have r: "fst (read_override_field f st) =
             (if fst f = HASH_SUBMESH then get_string (snd f) else fst st)"
    "fst (snd (read_override_field f st)) =
             (if fst f = HASH_TEXTURE then get_string (snd f) else fst (snd st))"
    "snd (snd (read_override_field f st)) =
             (if fst f = HASH_MATERIAL_LINK then get_hash_value (snd f) else snd (snd st))"
    by (simp_all add: read_override_field_def get_string_value_eq HASH_NAME_def HASH_SUBMESH_def)
  show ?case
    using Cons.IH [OF d, of "read_override_field f st"] find_field_absent [OF n]
    by (auto simp: r split: option.splits)
qed

lemma read_override_eq:
  assumes "override_ok (Embed n fs)"
  shows "read_override fs = (override_name fs, override_texture fs, override_link fs)"
proof -
  from assms have d: "distinct_keys fs"
    and l: "\<And>mf h. find_field fs HASH_MATERIAL_LINK = Some mf \<Longrightarrow> snd mf \<noteq> Hash h"
    by (auto simp: override_ok_def split: option.splits val.splits)
  have "get_hash_value (snd mf) = get_link (snd mf)"
    if "find_field fs HASH_MATERIAL_LINK = Some mf" for mf
    using l [OF that] by (cases "snd mf") (auto simp: get_hash_value_def get_link_def)
  then show ?thesis
    unfolding read_override_def fold_read_override_field [OF d]
    by (auto simp: override_name_def override_texture_def override_link_def split: option.splits)
qed

lemma process_override_elem_eq:
  assumes "\<And>h fs. em h = Some fs \<Longrightarrow> material_ok fs" and "override_ok ov"
  shows "process_override_elem em ov r = process_override em ov r"
proof (cases ov)
  case (Embed n fs)
  with assms(2) have "read_override fs = (override_name fs, override_texture fs, override_link fs)"
    by (simp add: read_override_eq)
  with Embed show ?thesis
    by (simp add: process_override_elem_def process_override_def get_embed_def
        override_path_rb_def override_texture_rb_def override_path_def
        follow_material_link_eq [of em, OF assms(1)])
qed (simp_all add: process_override_elem_def process_override_def get_embed_def)

lemma fold_process_override_elem_eq:
  assumes "\<And>h fs. em h = Some fs \<Longrightarrow> material_ok fs" and "list_all override_ok ovs"
  shows "fold (process_override_elem em) ovs r = fold (process_override em) ovs r"
  using assms(2)
proof (induction ovs arbitrary: r)
  case Nil
  then show ?case by simp
next
  case (Cons ov ovs)
  then show ?case
    by (simp add: process_override_elem_eq [of em, OF assms(1)])
qed

lemma process_override_base:
  assumes "override_ok ov"
  shows "process_override em ov (r(''BASE'' \<mapsto> t)) = (process_override em ov r)(''BASE'' \<mapsto> t)"
proof (cases ov)
  case (Embed n fs)
  with assms have "override_name fs \<noteq> ''BASE''"
    by (simp add: override_ok_def)
  with Embed show ?thesis
    by (auto simp: process_override_def get_embed_def Let_def fun_upd_twist)
qed (simp_all add: process_override_def get_embed_def)

lemma fold_process_override_base:
  "list_all override_ok ovs \<Longrightarrow>
   fold (process_override em) ovs (r(''BASE'' \<mapsto> t)) =
   (fold (process_override em) ovs r)(''BASE'' \<mapsto> t)"
  by (induction ovs arbitrary: r) (simp_all add: process_override_base)

lemma skin_mesh_ok_tail: "skin_mesh_ok (f # fs) \<Longrightarrow> skin_mesh_ok fs"
  by (auto simp: skin_mesh_ok_def distinct_keys_def find_field_absent split: if_splits)

lemma fold_process_sub_field_eq:
  assumes em: "\<And>h fs. em h = Some fs \<Longrightarrow> material_ok fs"
  shows "skin_mesh_ok fs \<Longrightarrow> fold (process_sub_field em) fs r = process_skin_mesh em fs r"
proof (induction fs arbitrary: r)
  case Nil
  then show ?case by (simp add: process_skin_mesh_def)
next
  case (Cons f fs)
  from Cons.prems have n: "fst f \<notin> fst ` set fs"
    by (simp add: skin_mesh_ok_def distinct_keys_def)
  have ih: "fold (process_sub_field em) fs r' = process_skin_mesh em fs r'" for r'
    using Cons.IH [OF skin_mesh_ok_tail [OF Cons.prems]] .
  have ne: "HASH_TEXTURE \<noteq> HASH_MATERIAL_OVERRIDE"
    by (simp add: HASH_TEXTURE_def HASH_MATERIAL_OVERRIDE_def)
  consider (tex) "fst f = HASH_TEXTURE" | (mo) "fst f = HASH_MATERIAL_OVERRIDE"
    | (other) "fst f \<noteq> HASH_TEXTURE" "fst f \<noteq> HASH_MATERIAL_OVERRIDE"
    by blast
  then show ?case
  proof cases
    case tex
    with n have "find_field fs HASH_TEXTURE = None"
      by (simp add: find_field_absent)
    moreover from tex ne have "process_sub_field em f r =
        (if get_string (snd f) \<noteq> '''' then r(''BASE'' \<mapsto> get_string (snd f)) else r)"
      by (simp add: process_sub_field_def get_string_value_eq)
    ultimately show ?thesis
      using tex ne by (simp add: ih process_skin_mesh_def Let_def)
  next
    case mo
    with n have absent: "find_field fs HASH_MATERIAL_OVERRIDE = None"
      by (simp add: find_field_absent)
    show ?thesis
    proof (cases "\<exists>ovs. snd f = List ovs")
      case True
      then obtain ovs where List: "snd f = List ovs" by blast
      with mo Cons.prems have ok: "list_all override_ok ovs"
        by (simp add: skin_mesh_ok_def)
      from mo ne List have "process_sub_field em f r = fold (process_override em) ovs r"
        by (simp add: process_sub_field_def fold_process_override_elem_eq [of em, OF em ok])
      with mo ne List absent show ?thesis
        by (simp add: ih process_skin_mesh_def get_list_def Let_def
            fold_process_override_base [OF ok] split: option.splits)
    next
      case False
      with mo ne have "process_sub_field em f r = r"
        by (cases "snd f") (simp_all add: process_sub_field_def)
      moreover from False have "get_list (snd f) = None"
        by (cases "snd f") (simp_all add: get_list_def)
      ultimately show ?thesis
        using mo ne absent by (simp add: ih process_skin_mesh_def)
    qed
  next
    case other
    then have "process_sub_field em f r = r"
      by (simp add: process_sub_field_def)
    with other show ?thesis
      by (simp add: ih process_skin_mesh_def)
  qed
qed

lemma fold_process_entry_field_absent:
  "HASH_SKIN_MESH_PROPERTIES \<notin> fst ` set fs \<Longrightarrow> fold (process_entry_field em) fs r = r"
  by (induction fs arbitrary: r) (auto simp: process_entry_field_def)

lemma fold_process_entry_field_eq:
  assumes em: "\<And>h fs. em h = Some fs \<Longrightarrow> material_ok fs"
  shows "entry_ok (Embed n fs) \<Longrightarrow>
         fold (process_entry_field em) fs r = process_entry em (k, Embed n fs) r"
proof -
  assume ok: "entry_ok (Embed n fs)"
  then have d: "distinct_keys fs"
    and sm: "\<And>f m skin_mesh. find_field fs HASH_SKIN_MESH_PROPERTIES = Some f \<Longrightarrow>
               snd f = Embed m skin_mesh \<Longrightarrow> skin_mesh_ok skin_mesh"
    by (auto simp: entry_ok_def split: option.splits val.splits)
  have "fold (process_entry_field em) fs r =
          (case find_field fs HASH_SKIN_MESH_PROPERTIES of
             None \<Rightarrow> r
           | Some f \<Rightarrow> (case snd f of Embed m skin_mesh \<Rightarrow> fold (process_sub_field em) skin_mesh r
                        | _ \<Rightarrow> r))"
    using d
  proof (induction fs arbitrary: r)
    case Nil
    then show ?case by simp
  next
    case (Cons f fs)
    then have d': "distinct_keys fs" and n: "fst f \<notin> fst ` set fs"
      by (simp_all add: distinct_keys_def)
    show ?case
    proof (cases "fst f = HASH_SKIN_MESH_PROPERTIES")
      case True
      with n have "HASH_SKIN_MESH_PROPERTIES \<notin> fst ` set fs" by simp
      moreover have "process_entry_field em f r =
              (case snd f of Embed m skin_mesh \<Rightarrow> fold (process_sub_field em) skin_mesh r
               | _ \<Rightarrow> r)"
        using True by (simp add: process_entry_field_def)
      ultimately show ?thesis
        using True by (simp add: fold_process_entry_field_absent)
    next
      case False
      then have "process_entry_field em f r = r"
        by (simp add: process_entry_field_def)
      with Cons.IH [OF d'] False show ?thesis
        by simp
    qed
  qed
  also have "\<dots> = process_entry em (k, Embed n fs) r"
    using sm
    by (auto simp: process_entry_def get_embed_def fold_process_sub_field_eq [of em, OF em]
        split: option.splits val.splits)
  finally show ?thesis .
qed

lemma process_entry_rb_eq:
  assumes "\<And>h fs. em h = Some fs \<Longrightarrow> material_ok fs" and "entry_ok (snd pair)"
  shows "process_entry_rb em pair r = process_entry em pair r"
proof (cases "snd pair")
  case (Embed n fs)
  with assms(2) fold_process_entry_field_eq [of em n fs r "fst pair", OF assms(1)]
  show ?thesis
    by (cases pair) (simp add: process_entry_rb_def)
qed (simp_all add: process_entry_rb_def process_entry_def get_embed_def)

lemma build_entries_map_rb_eq: "build_entries_map_rb = build_entries_map"
proof -
  have "index_pair_rb = index_pair"
    by (intro ext) (simp add: index_pair_rb_def index_pair_def)
  then show ?thesis
    by (intro ext) (simp add: build_entries_map_rb_def build_entries_map_def)
qed

lemma fold_index_pair_ok:
  assumes "list_all (\<lambda>pair. entry_ok (snd pair)) items"
    and "\<And>h fs. m h = Some fs \<Longrightarrow> material_ok fs"
    and "fold index_pair items m h = Some fs"
  shows "material_ok fs"
  using assms
proof (induction items arbitrary: m)
  case Nil
  then show ?case by simp
next
  case (Cons p ps)
  have "material_ok fs'" if "index_pair p m h' = Some fs'" for h' fs'
    using that Cons.prems(1,2)
    by (auto simp: index_pair_def entry_ok_def split: val.splits if_splits)
  with Cons.IH [of "index_pair p m"] Cons.prems show ?case
    by simp
qed

lemma build_entries_map_ok:
  "list_all (\<lambda>pair. entry_ok (snd pair)) items \<Longrightarrow> build_entries_map items h = Some fs \<Longrightarrow>
   material_ok fs"
  unfolding build_entries_map_def by (rule fold_index_pair_ok [where m = Map.empty]) simp_all

lemma fold_process_entry_rb_eq:
  assumes "\<And>h fs. em h = Some fs \<Longrightarrow> material_ok fs"
    and "list_all (\<lambda>pair. entry_ok (snd pair)) items"
  shows "fold (process_entry_rb em) items r = fold (process_entry em) items r"
  using assms(2)
  by (induction items arbitrary: r) (simp_all add: process_entry_rb_eq [of em, OF assms(1)])

text \<open>
  C10. \<^verbatim>\<open>extract_textures\<close> of \<^verbatim>\<open>ritobin_dll.cpp\<close> and of \<^verbatim>\<open>bin_parser.cpp\<close>
  return the same mapping on every document in which no object that is read repeats a field
  hash, no property list of an entry is in the second list encoding, no link of an override
  is a plain hash and no override is named \<open>BASE\<close>.
\<close>

theorem extractors_agree:
  assumes "agreeable b"
  shows "extract_textures_rb b = extract_textures b"
proof (cases "sections b ''entries''")
  case None
  then show ?thesis
    by (simp add: extract_textures_rb_def extract_textures_def)
next
  case (Some entries)
  show ?thesis
  proof (cases entries)
    case (Map items)
    with Some assms have ok: "list_all (\<lambda>pair. entry_ok (snd pair)) items"
      by (simp add: agreeable_def)
    have "fold (process_entry_rb (build_entries_map items)) items Map.empty =
          fold (process_entry (build_entries_map items)) items Map.empty"
      by (rule fold_process_entry_rb_eq [OF build_entries_map_ok [OF ok] ok])
    with Some Map show ?thesis
      by (simp add: extract_textures_rb_def extract_textures_def build_entries_map_rb_eq)
  qed (use Some in \<open>simp_all add: extract_textures_rb_def extract_textures_def\<close>)
qed

theorem extractors_agree_witness:
  "agreeable (example_doc (List [body_override (String '''') (Link 7)]) (List diffuse_props)) \<and>
   extract_textures_rb
     (example_doc (List [body_override (String '''') (Link 7)]) (List diffuse_props)) =
   extract_textures
     (example_doc (List [body_override (String '''') (Link 7)]) (List diffuse_props)) \<and>
   extract_textures
     (example_doc (List [body_override (String '''') (Link 7)]) (List diffuse_props)) =
   [''BASE'' \<mapsto> ''base.dds'', ''Body'' \<mapsto> ''first.dds'']"
proof -
  have a: "agreeable
             (example_doc (List [body_override (String '''') (Link 7)]) (List diffuse_props))"
    by (simp add: agreeable_defs example_defs override_name_def get_string_def hash_defs)
  have "extract_textures
          (example_doc (List [body_override (String '''') (Link 7)]) (List diffuse_props)) =
        [''BASE'' \<mapsto> ''base.dds'', ''Body'' \<mapsto> ''first.dds'']"
    by (simp add: example_defs bin_parser_defs hash_defs)
  with a extractors_agree [OF a] show ?thesis
    by simp
qed

text \<open>With the sampler values in the second list encoding the two results differ.\<close>

theorem extractors_differ_on_second_encoding:
  "extract_textures_rb
     (example_doc (List [body_override (String '''') (Link 7)]) (List2 diffuse_props)) \<noteq>
   extract_textures
     (example_doc (List [body_override (String '''') (Link 7)]) (List2 diffuse_props))"
proof -
  have "extract_textures_rb
          (example_doc (List [body_override (String '''') (Link 7)]) (List2 diffuse_props))
          ''Body'' = None"
    by (simp add: example_defs ritobin_defs hash_defs)
  moreover have "extract_textures
          (example_doc (List [body_override (String '''') (Link 7)]) (List2 diffuse_props))
          ''Body'' = Some ''first.dds''"
    by (simp add: example_defs bin_parser_defs hash_defs)
  ultimately show ?thesis
    by (metis option.distinct(1))
qed

text \<open>They differ as well on a link that is a plain hash, on a repeated field (the first
  one is read by \<^verbatim>\<open>find_field\<close>, the last one by the loops of
  \<^verbatim>\<open>ritobin_dll.cpp\<close>), and on an override named \<open>BASE\<close> that precedes the texture
  field.\<close>

lemma extractors_differ_on_hash_link:
  "extract_textures_rb
     (example_doc (List [body_override (String '''') (Hash 7)]) (List diffuse_props)) ''Body'' =
     Some ''first.dds'' \<and>
   extract_textures
     (example_doc (List [body_override (String '''') (Hash 7)]) (List diffuse_props)) ''Body'' =
     None"
  by (simp add: example_defs bin_parser_defs ritobin_defs hash_defs)

lemma extractors_differ_on_repeated_field:
  "process_override_elem Map.empty
     (Embed 0 [(HASH_SUBMESH, String ''Body''), (HASH_TEXTURE, String ''a.dds''),
               (HASH_TEXTURE, String ''b.dds'')]) Map.empty ''Body'' = Some ''b.dds'' \<and>
   process_override Map.empty
     (Embed 0 [(HASH_SUBMESH, String ''Body''), (HASH_TEXTURE, String ''a.dds''),
               (HASH_TEXTURE, String ''b.dds'')]) Map.empty ''Body'' = Some ''a.dds''"
  by (simp add: bin_parser_defs ritobin_defs hash_defs)

lemma extractors_differ_on_base_override:
  "fold (process_sub_field Map.empty)
     [(HASH_MATERIAL_OVERRIDE,
       List [Embed 0 [(HASH_SUBMESH, String ''BASE''), (HASH_TEXTURE, String ''a.dds'')]]),
      (HASH_TEXTURE, String ''base.dds'')] Map.empty ''BASE'' = Some ''base.dds'' \<and>
   process_skin_mesh Map.empty
     [(HASH_MATERIAL_OVERRIDE,
       List [Embed 0 [(HASH_SUBMESH, String ''BASE''), (HASH_TEXTURE, String ''a.dds'')]]),
      (HASH_TEXTURE, String ''base.dds'')] Map.empty ''BASE'' = Some ''a.dds''"
  by (simp add: bin_parser_defs ritobin_defs hash_defs)


section \<open>The converter\<close>

subsection \<open>The number of levels\<close>

lemma highest_bit_below_Some:
  "highest_bit_below x k = Some n \<Longrightarrow> n < k \<and> bit x n \<and> (\<forall>m. n < m \<and> m < k \<longrightarrow> \<not> bit x m)"
proof (induction k)
  case 0
  then show ?case by simp
next
  case (Suc k)
  show ?case
  proof (cases "bit x k")
    case True
    with Suc.prems show ?thesis by auto
  next
    case False
    with Suc.prems have "highest_bit_below x k = Some n" by simp
    from Suc.IH [OF this] False show ?thesis
      by (auto simp: less_Suc_eq)
  qed
qed

lemma highest_bit_below_None:
  "highest_bit_below x k = None \<Longrightarrow> m < k \<Longrightarrow> \<not> bit x m"
  by (induction k) (auto simp: less_Suc_eq split: if_splits)

lemma BitScanReverse_None: "BitScanReverse x = None \<longleftrightarrow> x = 0"
proof
  assume "BitScanReverse x = None"
  then have "\<not> bit x m" for m
    using highest_bit_below_None [of x 32 m] bit_imp_le_length [of x m]
    by (auto simp: BitScanReverse_def)
  then show "x = 0"
    by (intro bit_eqI) simp
next
  assume "x = 0"
  moreover have "highest_bit_below 0 k = None" for k
    by (induction k) simp_all
  ultimately show "BitScanReverse x = None"
    by (simp add: BitScanReverse_def)
qed

lemma BitScanReverse_Some:
  assumes "BitScanReverse x = Some n"
  shows "n < 32" and "2 ^ n \<le> unat x" and "unat x < 2 ^ Suc n"
proof -
  from assms highest_bit_below_Some [of x 32 n]
  have n: "n < 32" and b: "bit x n" and h: "\<And>m. n < m \<Longrightarrow> m < 32 \<Longrightarrow> \<not> bit x m"
    by (auto simp: BitScanReverse_def)
  show "n < 32" by (rule n)
  from b have "bit (unat x) n"
    by (simp add: bit_unsigned_iff)
  then have "odd (unat x div 2 ^ n)"
    by (simp add: bit_iff_odd)
  then have "unat x div 2 ^ n \<noteq> 0"
    by (metis even_zero)
  then show "2 ^ n \<le> unat x"
    by (simp add: div_eq_0_iff not_less)
  have "\<not> bit x m" if "n < m" for m
    using h [OF that] bit_imp_le_length [of x m] by auto
  then have "m < Suc n" if "bit x m" for m
    using that by (meson not_less_eq)
  then have "take_bit (Suc n) (unat x) = unat x"
    by (intro bit_eqI) (auto simp: bit_take_bit_iff bit_unsigned_iff)
  then show "unat x < 2 ^ Suc n"
    by (metis take_bit_nat_less_exp)
qed

lemma clz_count:
  assumes "x \<noteq> 0"
  shows "unat (32 - clz32 x) = nat \<lfloor>log 2 (real (unat x))\<rfloor> + 1"
proof -
  from assms obtain n where s: "BitScanReverse x = Some n"
    using BitScanReverse_None [of x] by (cases "BitScanReverse x") auto
  note bs = BitScanReverse_Some [OF s]
  have "\<lfloor>log 2 (real (unat x))\<rfloor> = int n"
    using floor_log_nat_eq_if [of 2 n "unat x"] bs by simp
  moreover have "32 - clz32 x = (of_nat (Suc n) :: 32 word)"
    using s by (simp add: clz32_def)
  moreover have "unat (of_nat (Suc n) :: 32 word) = Suc n"
    using bs(1) by (simp add: unat_of_nat del: of_nat_Suc)
  ultimately show ?thesis
    by (simp del: of_nat_Suc)
qed

lemma clz_zero: "32 - clz32 0 = 0"
  using BitScanReverse_None [of 0] by (simp add: clz32_def)

lemma count_shifts_floorlog:
  "unat count + floorlog 2 (unat max_dim) < 2 ^ 32 \<Longrightarrow>
   unat (count_shifts max_dim count) = unat count + floorlog 2 (unat max_dim)"
proof (induction max_dim count rule: count_shifts.induct)
  case (1 max_dim count)
  show ?case
  proof (cases "0 < max_dim")
    case True
    then have pos: "0 < unat max_dim"
      by (simp add: word_less_nat_alt)
    have d: "unat (drop_bit (Suc 0) max_dim) = unat max_dim div 2"
      using unat_div_distrib [of max_dim 2] by (simp add: drop_bit_eq_div)
    have f: "floorlog 2 (unat max_dim) = floorlog 2 (unat max_dim div 2) + 1"
      using pos compute_floorlog [of 2 "unat max_dim"] by simp
    with "1.prems" have c: "unat (count + 1) = unat count + 1"
      by (simp add: unat_word_ariths)
    from "1.IH" [OF True] "1.prems" show ?thesis
      using True by (subst count_shifts.simps) (simp add: c d f del: count_shifts.simps)
  next
    case False
    then have "max_dim = 0"
      by (simp add: word_greater_zero_iff)
    then show ?thesis
      by (subst count_shifts.simps) (simp add: compute_floorlog del: count_shifts.simps)
  qed
qed

lemma unat_ucast_16_32: "unat (ucast (w :: 16 word) :: 32 word) = unat w"
proof -
  have "unat w < 2 ^ 16"
    using unsigned_less [of w, where 'a = nat] by simp
  then have "unat w < 2 ^ 32"
    by simp
  then show ?thesis
    by (simp add: unsigned_ucast_eq take_bit_nat_eq_self)
qed

lemma MAX_macro_ucast:
  "MAX_macro (ucast (w :: 16 word)) (ucast (h :: 16 word)) = ucast (max w h)"
  by (simp add: MAX_macro_def max_def word_less_nat_alt word_le_nat_alt unat_ucast_16_32)

lemma calc_mipmap_count_log:
  assumes "1 \<le> max w h"
  shows "unat (calc_mipmap_count (ucast (w :: 16 word)) (ucast (h :: 16 word))) =
         nat \<lfloor>log 2 (real (unat (max w h)))\<rfloor> + 1"
proof -
  from assms have "unat (max w h) \<noteq> 0"
    by (simp add: word_le_nat_alt)
  then have "(ucast (max w h) :: 32 word) \<noteq> 0"
    by (metis unat_ucast_16_32 unsigned_0)
  from clz_count [OF this] show ?thesis
    by (simp add: calc_mipmap_count_def MAX_macro_ucast unat_ucast_16_32)
qed

lemma calc_mipmap_count_ln_eq: "calc_mipmap_count_ln x y = calc_mipmap_count x y"
proof -
  define m where "m = MAX_macro x y"
  have "floorlog 2 (unat m) \<le> 32"
    using unsigned_less [of m, where 'a = nat] by (intro floorlog_leI) simp_all
  then have l: "unat (count_shifts m 0) = floorlog 2 (unat m)"
    using count_shifts_floorlog [of 0 m] by simp
  have c: "unat (32 - clz32 m) = floorlog 2 (unat m)"
  proof (cases "m = 0")
    case True
    then show ?thesis
      by (simp add: clz_zero compute_floorlog)
  next
    case False
    then have "0 < unat m"
      by (simp add: unat_gt_0)
    with clz_count [OF False] show ?thesis
      by (simp add: floorlog_def)
  qed
  from l c have "count_shifts m 0 = 32 - clz32 m"
    by (metis word_unat_eq_iff)
  then show ?thesis
    by (simp add: calc_mipmap_count_ln_def calc_mipmap_count_def MAX_macro_def m_def)
qed

lemma read_tex_bytes:
  "read_tex_header (tex_bytes w h format mips payload) =
     \<lparr> magic = TEX_MAGIC, image_width = ucast w, image_height = ucast h, unk1 = 0,
       tex_format = format, unk2 = 0, has_mipmaps = mips \<rparr>"
  by (simp add: read_tex_header_def tex_bytes_def TEX_MAGIC_def le16_def)

lemma calc_mipmap_count_8: "calc_mipmap_count 8 8 = 4"
  by (simp add: calc_mipmap_count_def MAX_macro_def clz32_def BitScanReverse_def eval_nat_numeral)

text \<open>
  C5. With \<^verbatim>\<open>has_mipmaps\<close> set and a width or height of at least 1, the level count
  that the header is built with is \<open>\<lfloor>log\<^sub>2 (max width height)\<rfloor> + 1\<close>, with the
  \<^verbatim>\<open>calc_mipmap_count\<close> of \<^verbatim>\<open>ritoddstex_dll.c\<close> and with that of \<^verbatim>\<open>lol_native.cpp\<close>,
  and it is the count written to the header. With \<^verbatim>\<open>has_mipmaps\<close> unset the count is 0,
  the header's count field is 0 and neither mipmap flag is set.
\<close>

theorem mip_level_count:
  "(has_mipmaps h \<noteq> 0 \<and> 1 \<le> max (image_width h) (image_height h) \<longrightarrow>
      unat (snd (make_dds_header calc_mipmap_count h pf)) =
        nat \<lfloor>log 2 (real (unat (max (image_width h) (image_height h))))\<rfloor> + 1 \<and>
      unat (snd (make_dds_header calc_mipmap_count_ln h pf)) =
        nat \<lfloor>log 2 (real (unat (max (image_width h) (image_height h))))\<rfloor> + 1 \<and>
      dwMipMapCount (fst (make_dds_header calc_mipmap_count h pf)) =
        snd (make_dds_header calc_mipmap_count h pf)) \<and>
   (has_mipmaps h = 0 \<longrightarrow>
      snd (make_dds_header calc h pf) = 0 \<and>
      dwMipMapCount (fst (make_dds_header calc h pf)) = 0 \<and>
      dwFlags (fst (make_dds_header calc h pf)) = DDS_HEADER_FLAGS_TEXTURE \<and>
      dwCaps (fst (make_dds_header calc h pf)) = DDS_SURFACE_FLAGS_TEXTURE \<and>
      dwFlags (fst (make_dds_header calc h pf)) AND DDS_HEADER_FLAGS_MIPMAP = 0 \<and>
      dwCaps (fst (make_dds_header calc h pf)) AND DDS_SURFACE_FLAGS_MIPMAP = 0)"
proof -
  have "calc_mipmap_count_ln = calc_mipmap_count"
    by (intro ext) (rule calc_mipmap_count_ln_eq)
  then show ?thesis
    by (simp add: make_dds_header_def Let_def calc_mipmap_count_log DDS_HEADER_FLAGS_TEXTURE_def
        DDS_HEADER_FLAGS_MIPMAP_def DDS_SURFACE_FLAGS_TEXTURE_def DDS_SURFACE_FLAGS_MIPMAP_def)
qed

theorem mip_level_count_witness:
  "has_mipmaps (read_tex_header (tex_bytes 8 8 TEX_FORMAT_DXT1 1 [])) \<noteq> 0 \<and>
   1 \<le> max (image_width (read_tex_header (tex_bytes 8 8 TEX_FORMAT_DXT1 1 [])))
          (image_height (read_tex_header (tex_bytes 8 8 TEX_FORMAT_DXT1 1 []))) \<and>
   snd (make_dds_header calc_mipmap_count
          (read_tex_header (tex_bytes 8 8 TEX_FORMAT_DXT1 1 [])) dxt1_format) = 4 \<and>
   unat (4 :: 32 word) = nat \<lfloor>log 2 (real (unat (8 :: 16 word)))\<rfloor> + 1 \<and>
   has_mipmaps (read_tex_header (tex_bytes 8 8 TEX_FORMAT_DXT1 0 [])) = 0 \<and>
   snd (make_dds_header calc_mipmap_count
          (read_tex_header (tex_bytes 8 8 TEX_FORMAT_DXT1 0 [])) dxt1_format) = 0"
  using mip_level_count [where h = "read_tex_header (tex_bytes 8 8 TEX_FORMAT_DXT1 1 [])"
      and pf = dxt1_format]
    mip_level_count [where h = "read_tex_header (tex_bytes 8 8 TEX_FORMAT_DXT1 0 [])"
      and calc = calc_mipmap_count and pf = dxt1_format] calc_mipmap_count_8
  by (simp add: read_tex_bytes make_dds_header_def)


lemma tex_to_dds_bytes_ln_eq: "tex_to_dds_bytes_ln = tex_to_dds_bytes"
proof -
  have "calc_mipmap_count_ln = calc_mipmap_count"
    by (intro ext) (rule calc_mipmap_count_ln_eq)
  then show ?thesis
    by (simp add: tex_to_dds_bytes_ln_def tex_to_dds_bytes_def)
qed

subsection \<open>The headers\<close>

lemma length_le32: "length (le32 w) = 4"
  by (simp add: le32_def)

lemma length_concat_le32: "length (concat (map le32 ws)) = 4 * length ws"
  by (induction ws) (simp_all add: length_le32)

lemma length_concat_replicate: "length (concat (replicate n xs)) = n * length xs"
  by (induction n) simp_all

lemma pixel_format_fourcc: "pixel_format format = Some (pf, need_dx) \<Longrightarrow> length (dwFourCC pf) = 4"
  by (auto simp: pixel_format_def Let_def split: if_splits)

lemma make_dds_header_parts:
  "ddspf (fst (make_dds_header calc h pf)) = pf"
  "dwReserved1 (fst (make_dds_header calc h pf)) = replicate 11 0"
  by (simp_all add: make_dds_header_def Let_def)

lemma length_header_bytes:
  assumes "pixel_format format = Some (pf, need_dx)"
  shows "length (header_bytes (fst (make_dds_header calc h pf)) need_dx) =
         (if need_dx then 148 else 128)"
  using pixel_format_fourcc [OF assms]
  by (simp add: header_bytes_def dds_header_bytes_def pixelformat_bytes_def length_le32
      length_concat_le32 length_concat_replicate make_dds_header_parts DDS_MAGIC_def
      dx10_header_def)

lemma memcpy_at:
  "length pre = ptr \<Longrightarrow> length src \<le> length rest \<Longrightarrow>
   memcpy (pre @ rest) ptr src = Some (pre @ map Some src @ drop (length src) rest)"
  by (simp add: memcpy_def)

lemma write_headers_ok:
  assumes pf: "pixel_format format = Some (pf, need_dx)"
    and H: "H = fst (make_dds_header calc h pf)"
    and len: "length (header_bytes H need_dx) \<le> length d"
  shows "write_headers d H need_dx =
         Some (map Some (header_bytes H need_dx) @ drop (length (header_bytes H need_dx)) d,
               length (header_bytes H need_dx))"
proof -
  have l: "length (dds_header_bytes H) = 124"
    using pixel_format_fourcc [OF pf]
    by (simp add: H dds_header_bytes_def pixelformat_bytes_def length_le32 length_concat_le32
        length_concat_replicate make_dds_header_parts)
  have m: "length DDS_MAGIC = 4"
    by (simp add: DDS_MAGIC_def)
  have x: "length dx10_header = 20"
    by (simp add: dx10_header_def)
  from len l m x have d: "(if need_dx then 148 else 128) \<le> length d"
    by (simp add: header_bytes_def split: if_splits)
  have 1: "memcpy d 0 DDS_MAGIC = Some (map Some DDS_MAGIC @ drop 4 d)"
    using memcpy_at [of "[]" 0 DDS_MAGIC d] d m by (simp split: if_splits)
  have 2: "memcpy (map Some DDS_MAGIC @ drop 4 d) 4 (dds_header_bytes H) =
           Some (map Some DDS_MAGIC @ map Some (dds_header_bytes H) @ drop 128 d)"
    using memcpy_at [of "map Some DDS_MAGIC" 4 "dds_header_bytes H" "drop 4 d"] d m l
    by (simp split: if_splits)
  have 3: "memcpy (map Some DDS_MAGIC @ map Some (dds_header_bytes H) @ drop 128 d) 128
             dx10_header =
           Some (map Some DDS_MAGIC @ map Some (dds_header_bytes H) @ map Some dx10_header @
                 drop 148 d)" if need_dx
    using memcpy_at [of "map Some DDS_MAGIC @ map Some (dds_header_bytes H)" 128 dx10_header
        "drop 128 d"] d m l x that
    by simp
  show ?thesis
    using 1 2 3 l m x
    by (simp add: write_headers_def header_bytes_def sizeof_DDS_HEADER_def)
qed

lemma unat_of_nat_32: "n < 2 ^ 32 \<Longrightarrow> unat (of_nat n :: 32 word) = n"
  by (simp add: unat_of_nat)

lemma convert_valid:
  assumes len: "12 \<le> length raw" "length raw + 136 < 2 ^ 32"
    and magic: "take 3 raw = take 3 TEX_MAGIC"
    and pf: "pixel_format (tex_format (read_tex_header raw)) = Some (pf, need_dx)"
    and H: "make_dds_header calc (read_tex_header raw) pf = (dds_header, mipmap_count)"
    and hdr: "hdr = header_bytes dds_header need_dx"
  shows "tex_to_dds_bytes_with calc (Some raw) True True =
     (case copy_payload (read_tex_header raw) mipmap_count (drop 12 raw)
             (of_nat (length raw - 12)) (length hdr)
             (map Some hdr @ replicate (length raw - 12) None) of
        None \<Rightarrow> None
      | Some d \<Rightarrow> Some (Inr \<lparr> out_data = d,
                               out_size = of_nat (length hdr + (length raw - 12)) \<rparr>))"
proof -
  define file_size :: "32 word" where "file_size = of_nat (length raw)"
  have fs: "unat file_size = length raw"
    using len(2) by (simp add: file_size_def unat_of_nat_32)
  have nlt: "\<not> file_size < sizeof_TEX_HEADER" "\<not> length raw < 12"
    using len(1) by (simp_all add: word_less_nat_alt fs sizeof_TEX_HEADER_def)
  have tds: "file_size - sizeof_TEX_HEADER = of_nat (length raw - 12)"
    using len(1) by (simp add: file_size_def sizeof_TEX_HEADER_def)
  have utds: "unat (of_nat (length raw - 12) :: 32 word) = length raw - 12"
    using len(2) by (simp add: unat_of_nat_32)
  have dh: "dds_header = fst (make_dds_header calc (read_tex_header raw) pf)"
    by (simp add: H)
  have hl: "length hdr = (if need_dx then 148 else 128)"
    unfolding hdr dh by (rule length_header_bytes [OF pf])
  have hs: "4 + sizeof_DDS_HEADER + (if need_dx then 20 else 0) = (of_nat (length hdr) :: 32 word)"
    by (simp add: hl sizeof_DDS_HEADER_def)
  have tot: "(of_nat (length hdr) :: 32 word) + of_nat (length raw - 12) =
             of_nat (length hdr + (length raw - 12))"
    by simp
  have utot: "unat (of_nat (length hdr + (length raw - 12)) :: 32 word) =
              length hdr + (length raw - 12)"
    using len(2) hl by (intro unat_of_nat_32) (simp split: if_splits)
  have wh: "write_headers (replicate (length hdr + (length raw - 12)) None) dds_header need_dx =
            Some (map Some hdr @ replicate (length raw - 12) None, length hdr)"
    using write_headers_ok [OF pf dh, of "replicate (length hdr + (length raw - 12)) None"]
    by (simp add: hdr [symmetric])
  have u12: "unat sizeof_TEX_HEADER = 12"
    by (simp add: sizeof_TEX_HEADER_def)
  have td: "take (length raw - 12) (drop 12 raw) = drop 12 raw"
    by simp
  show ?thesis
    unfolding tex_to_dds_bytes_with_def Let_def
    by (simp only: option.case prod.case file_size_def [symmetric] nlt magic pf H tds utds hs
        tot utot wh td u12 length_drop simp_thms if_False if_True)
qed

subsection \<open>The loop over the levels\<close>

lemma sint_negative_iff: "sint (w :: 32 word) < 0 \<longleftrightarrow> 2 ^ 31 \<le> unat w"
proof -
  have "sint w < 0 \<longleftrightarrow> bit (unat w) 31"
    by (simp add: sint_uint bit_unsigned_iff)
  also have "\<dots> \<longleftrightarrow> odd (unat w div 2 ^ 31)"
    by (simp add: bit_iff_odd)
  also have "\<dots> \<longleftrightarrow> 2 ^ 31 \<le> unat w"
  proof -
    have "unat w < 2 ^ 32"
      using unsigned_less [of w, where 'a = nat] by simp
    then have "unat w div 2 ^ 31 < 2"
      by (simp add: less_mult_imp_div_less)
    then have "unat w div 2 ^ 31 = 0 \<or> unat w div 2 ^ 31 = 1"
      by linarith
    moreover have "unat w div 2 ^ 31 = 0 \<longleftrightarrow> unat w < 2 ^ 31"
      by (simp add: div_eq_0_iff)
    ultimately show ?thesis
      by auto
  qed
  finally show ?thesis .
qed

lemma length_levels_from_end: "length (levels_from_end h n i data) \<le> length data"
proof (induction h n i data rule: levels_from_end.induct)
  case (1 h n i data)
  show ?case
  proof (cases "i < n \<and> unat (mip_size h i) \<le> length data")
    case True
    with "1.IH" show ?thesis
      by (subst levels_from_end.simps) auto
  next
    case False
    then show ?thesis
      by (subst levels_from_end.simps) auto
  qed
qed

lemma mip_loop_levels:
  assumes "length data < 2 ^ 31"
    and "\<forall>j. i \<le> j \<and> j < n \<longrightarrow> unat (mip_size h j) < 2 ^ 31"
    and "length pre = ptr"
    and "length data \<le> length rest"
  shows "mip_loop h (data @ suf) n i (of_nat (length data)) ptr (pre @ rest) =
         Some (pre @ map Some (levels_from_end h n i data) @
               drop (length (levels_from_end h n i data)) rest)"
  using assms
proof (induction h n i data arbitrary: suf ptr pre rest rule: levels_from_end.induct)
  case (1 h n i data)
  define s where "s = unat (mip_size h i)"
  define L where "L = length data"
  have ms: "mip_size h i = of_nat s"
    by (simp add: s_def)
  show ?case
  proof (cases "i < n")
    case False
    then show ?thesis
      by (subst mip_loop.simps, subst (1 2) levels_from_end.simps) simp
  next
    case True
    with "1.prems"(2) have s31: "s < 2 ^ 31"
      by (simp add: s_def)
    have L31: "L < 2 ^ 31"
      using "1.prems"(1) by (simp add: L_def)
    show ?thesis
    proof (cases "s \<le> L")
      case False
      then have "unat (of_nat L - mip_size h i :: 32 word) = L + 2 ^ 32 - s"
        using L31 s31 by (simp add: unat_sub_if' unat_of_nat_32 s_def)
      with False s31 have "sint (of_nat L - mip_size h i :: 32 word) < 0"
        by (simp add: sint_negative_iff)
      with True False show ?thesis
        by (subst mip_loop.simps, subst (1 2) levels_from_end.simps)
          (simp add: s_def L_def Let_def)
    next
      case sL: True
      define c where "c = drop (L - s) data"
      define data' where "data' = take (L - s) data"
      have off: "(of_nat L - mip_size h i :: 32 word) = of_nat (L - s)"
        using sL by (simp add: ms)
      have uoff: "unat (of_nat (L - s) :: 32 word) = L - s"
        using L31 by (intro unat_of_nat_32) simp
      have nonneg: "\<not> sint (of_nat (L - s) :: 32 word) < 0"
        using L31 by (simp add: sint_negative_iff uoff)
      have lc: "length c = s"
        using sL by (simp add: c_def L_def)
      have cp: "memcpy_from (pre @ rest) ptr (data @ suf) (L - s) s =
                Some (pre @ map Some c @ drop s rest)"
        using sL "1.prems"(3,4) memcpy_at [of pre ptr c rest]
        by (simp add: memcpy_from_def c_def L_def)
      have split: "data @ suf = data' @ (c @ suf)"
        by (simp add: data'_def c_def)
      have ld: "length data' = L - s"
        by (simp add: data'_def L_def)
      have ih: "mip_loop h (data' @ (c @ suf)) n (Suc i) (of_nat (length data')) (ptr + s)
                  ((pre @ map Some c) @ drop s rest) =
                Some ((pre @ map Some c) @ map Some (levels_from_end h n (Suc i) data') @
                      drop (length (levels_from_end h n (Suc i) data')) (drop s rest))"
        using "1.prems" True sL L31 lc
        by (intro "1.IH" [unfolded s_def [symmetric] L_def [symmetric] data'_def [symmetric]])
          (simp_all add: ld L_def)
      have lv: "levels_from_end h n i data = c @ levels_from_end h n (Suc i) data'"
        using True sL
        by (subst levels_from_end.simps) (simp add: s_def L_def c_def data'_def)
      have "mip_loop h (data @ suf) n i (of_nat L) ptr (pre @ rest) =
            mip_loop h (data @ suf) n (Suc i) (of_nat (L - s)) (ptr + s)
              (pre @ map Some c @ drop s rest)"
        using True nonneg
        by (subst mip_loop.simps) (simp add: Let_def off uoff s_def [symmetric] cp)
      also have "\<dots> = Some ((pre @ map Some c) @ map Some (levels_from_end h n (Suc i) data') @
                      drop (length (levels_from_end h n (Suc i) data')) (drop s rest))"
        using ih by (simp add: split ld)
      finally show ?thesis
        by (simp add: lv lc L_def add.commute)
    qed
  qed
qed

lemma levels_from_end_chain:
  assumes "\<forall>j<length cs. length (cs ! j) = unat (mip_size h (i + j))" and "n = i + length cs"
  shows "levels_from_end h n i (concat (rev cs)) = concat cs"
  using assms
proof (induction cs arbitrary: i)
  case Nil
  then show ?case
    by (subst levels_from_end.simps) simp
next
  case (Cons c cs)
  from Cons.prems(1) have c: "length c = unat (mip_size h i)"
    by auto
  from Cons.prems(1) have "\<forall>j<length cs. length (cs ! j) = unat (mip_size h (Suc i + j))"
    by auto
  with Cons.prems(2) have "levels_from_end h n (Suc i) (concat (rev cs)) = concat cs"
    by (intro Cons.IH) simp_all
  with Cons.prems(2) c show ?case
    by (subst levels_from_end.simps) simp
qed

lemma length_nth_le_concat: "j < length xs \<Longrightarrow> length (xs ! j) \<le> length (concat xs)"
proof (induction xs arbitrary: j)
  case Nil
  then show ?case by simp
next
  case (Cons x xs)
  then show ?case
    by (cases j) (simp_all add: trans_le_add2)
qed

lemma copy_payload_levels:
  assumes "has_mipmaps h \<noteq> 0" and "0 < mipmap_count"
    and "length data < 2 ^ 31"
    and "\<forall>j<unat mipmap_count. unat (mip_size h j) < 2 ^ 31"
  shows "copy_payload h mipmap_count data (of_nat (length data)) (length hdr)
           (map Some hdr @ replicate (length data) None) =
         Some (map Some (hdr @ levels_from_end h (unat mipmap_count) 0 data) @
               replicate (length data - length (levels_from_end h (unat mipmap_count) 0 data))
                 None)"
  using assms
    mip_loop_levels [of data 0 "unat mipmap_count" h "map Some hdr" "length hdr"
      "replicate (length data) None" "[]"]
  by (simp add: copy_payload_def)

lemma copy_payload_verbatim:
  assumes "has_mipmaps h = 0 \<or> mipmap_count = 0"
  shows "copy_payload h mipmap_count data tex_data_size (length hdr)
           (map Some hdr @ replicate (length data) None) = Some (map Some (hdr @ data))"
  using assms memcpy_at [of "map Some hdr" "length hdr" data "replicate (length data) None"]
  by (auto simp: copy_payload_def)

subsection \<open>The example containers\<close>

lemmas format_defs =
  TEX_FORMAT_DXT1_def TEX_FORMAT_DXT5_def TEX_FORMAT_BGRA8_def TEX_FORMAT_RGBA16_def

lemma length_level_bytes: "length (level_bytes b n) = n"
  by (simp add: level_bytes_def)

lemma length_tex_bytes: "length (tex_bytes w h format mips payload) = 12 + length payload"
  by (simp add: tex_bytes_def)

lemma take_tex_bytes: "take 3 (tex_bytes w h format mips payload) = take 3 TEX_MAGIC"
  by (simp add: tex_bytes_def TEX_MAGIC_def)

lemma drop_tex_bytes: "drop 12 (tex_bytes w h format mips payload) = payload"
  by (simp add: tex_bytes_def)

lemma dxt1_pixel_format:
  "pixel_format (tex_format (read_tex_header (tex_bytes w h TEX_FORMAT_DXT1 mips payload))) =
   Some (dxt1_format, False)"
  by (simp add: read_tex_bytes dxt1_format_def pixel_format_def format_defs)

lemma dxt1_header_length:
  "length (header_bytes
             (fst (make_dds_header calc (read_tex_header (tex_bytes w h TEX_FORMAT_DXT1 mips payload))
                     dxt1_format)) False) = 128"
  using length_header_bytes [OF dxt1_pixel_format] by simp

lemma less_4_cases: "j < (4 :: nat) \<longleftrightarrow> j = 0 \<or> j = 1 \<or> j = 2 \<or> j = 3"
  by arith

lemma dxt1_mip_sizes_8:
  "unat (mip_size (read_tex_header (tex_bytes 8 8 TEX_FORMAT_DXT1 1 payload)) 0) = 32"
  "unat (mip_size (read_tex_header (tex_bytes 8 8 TEX_FORMAT_DXT1 1 payload)) (Suc 0)) = 8"
  "unat (mip_size (read_tex_header (tex_bytes 8 8 TEX_FORMAT_DXT1 1 payload)) 2) = 8"
  "unat (mip_size (read_tex_header (tex_bytes 8 8 TEX_FORMAT_DXT1 1 payload)) 3) = 8"
  by (simp_all add: mip_size_def read_tex_bytes get_block_size_def get_bytes_per_block_def
      MAX_macro_def format_defs drop_bit_eq_div)

lemma less_3_cases: "j < (3 :: nat) \<longleftrightarrow> j = 0 \<or> j = 1 \<or> j = 2"
  by arith

lemma calc_mipmap_count_4: "calc_mipmap_count 4 4 = 3"
  by (simp add: calc_mipmap_count_def MAX_macro_def clz32_def BitScanReverse_def eval_nat_numeral)

lemma dxt1_mip_sizes_4:
  "unat (mip_size (read_tex_header (tex_bytes 4 4 TEX_FORMAT_DXT1 1 payload)) 0) = 8"
  "unat (mip_size (read_tex_header (tex_bytes 4 4 TEX_FORMAT_DXT1 1 payload)) (Suc 0)) = 8"
  "unat (mip_size (read_tex_header (tex_bytes 4 4 TEX_FORMAT_DXT1 1 payload)) 2) = 8"
  by (simp_all add: mip_size_def read_tex_bytes get_block_size_def get_bytes_per_block_def
      MAX_macro_def format_defs drop_bit_eq_div)

lemma levels_from_end_short:
  "levels_from_end (read_tex_header (tex_bytes 4 4 TEX_FORMAT_DXT1 1 (level_bytes 1 20))) 3 0
     (level_bytes 1 20) =
   drop 12 (level_bytes 1 20) @ drop 4 (take 12 (level_bytes 1 20))"
  by (subst levels_from_end.simps, subst levels_from_end.simps, subst levels_from_end.simps)
    (simp add: dxt1_mip_sizes_4 length_level_bytes numeral_2_eq_2 [symmetric])

subsection \<open>The payload\<close>

text \<open>
  C8. A container of at least 12 bytes with the magic, a recognized format and
  \<^verbatim>\<open>has_mipmaps\<close> = 0 converts, when both allocations succeed, to the headers followed by
  the input payload, byte for byte and of the same length; \<open>calc\<close> is the
  \<^verbatim>\<open>calc_mipmap_count\<close> of either file. The size of the output, at most 136 bytes more
  than that of the file, fits the 32-bit variables.
\<close>

theorem payload_copied_verbatim:
  assumes "12 \<le> length raw" and "length raw + 136 < 2 ^ 32"
    and "take 3 raw = take 3 TEX_MAGIC"
    and "pixel_format (tex_format (read_tex_header raw)) = Some (pf, need_dx)"
    and "has_mipmaps (read_tex_header raw) = 0"
    and "make_dds_header calc (read_tex_header raw) pf = (dds_header, mipmap_count)"
  shows "tex_to_dds_bytes_with calc (Some raw) True True =
         Some (Inr \<lparr> out_data = map Some (header_bytes dds_header need_dx @ drop 12 raw),
                      out_size = of_nat (length (header_bytes dds_header need_dx) +
                                         length (drop 12 raw)) \<rparr>)"
  using assms(5) convert_valid [OF assms(1-4) assms(6) refl]
    copy_payload_verbatim [of "read_tex_header raw" mipmap_count "drop 12 raw"
      "of_nat (length raw - 12)" "header_bytes dds_header need_dx"]
  by simp

theorem payload_copied_verbatim_witness:
  "12 \<le> length (tex_bytes 4 4 TEX_FORMAT_RGBA16 0 [1, 2, 3]) \<and>
   length (tex_bytes 4 4 TEX_FORMAT_RGBA16 0 [1, 2, 3]) + 136 < 2 ^ 32 \<and>
   take 3 (tex_bytes 4 4 TEX_FORMAT_RGBA16 0 [1, 2, 3]) = take 3 TEX_MAGIC \<and>
   pixel_format (tex_format (read_tex_header (tex_bytes 4 4 TEX_FORMAT_RGBA16 0 [1, 2, 3]))) =
     Some (rgba16_format, True) \<and>
   has_mipmaps (read_tex_header (tex_bytes 4 4 TEX_FORMAT_RGBA16 0 [1, 2, 3])) = 0 \<and>
   tex_to_dds_bytes (Some (tex_bytes 4 4 TEX_FORMAT_RGBA16 0 [1, 2, 3])) True True =
     Some (Inr \<lparr> out_data =
                   map Some (header_bytes
                               (fst (make_dds_header calc_mipmap_count
                                       (read_tex_header (tex_bytes 4 4 TEX_FORMAT_RGBA16 0 []))
                                       rgba16_format)) True @ [1, 2, 3]),
                 out_size = 151 \<rparr>)"
proof -
  have pf: "pixel_format (tex_format (read_tex_header (tex_bytes 4 4 TEX_FORMAT_RGBA16 0 [1, 2, 3])))
            = Some (rgba16_format, True)"
    by (simp add: read_tex_bytes rgba16_format_def pixel_format_def format_defs)
  have l: "length (header_bytes
                     (fst (make_dds_header calc_mipmap_count
                             (read_tex_header (tex_bytes 4 4 TEX_FORMAT_RGBA16 0 [1, 2, 3]))
                             rgba16_format)) True) = 148"
    using length_header_bytes [OF pf] by simp
  show ?thesis
    using payload_copied_verbatim [where raw = "tex_bytes 4 4 TEX_FORMAT_RGBA16 0 [1, 2, 3]"
        and calc = calc_mipmap_count and pf = rgba16_format and need_dx = True
        and dds_header = "fst (make_dds_header calc_mipmap_count
                             (read_tex_header (tex_bytes 4 4 TEX_FORMAT_RGBA16 0 [1, 2, 3]))
                             rgba16_format)"
        and mipmap_count = "snd (make_dds_header calc_mipmap_count
                             (read_tex_header (tex_bytes 4 4 TEX_FORMAT_RGBA16 0 [1, 2, 3]))
                             rgba16_format)"] pf l
    by (simp add: length_tex_bytes take_tex_bytes drop_tex_bytes tex_to_dds_bytes_def
        read_tex_bytes)
qed

text \<open>
  C1. With \<^verbatim>\<open>has_mipmaps\<close> set and a payload that is the chain of all computed levels,
  smallest level first and each of its computed size, the output is the headers followed by
  the levels in increasing order. For an 8 by 8 image in the first compressed format the
  chain has four levels, of 32, 8, 8 and 8 bytes.
\<close>

theorem mip_levels_reordered:
  assumes "12 \<le> length raw" and "length raw < 2 ^ 31"
    and "take 3 raw = take 3 TEX_MAGIC"
    and "pixel_format (tex_format (read_tex_header raw)) = Some (pf, need_dx)"
    and "has_mipmaps (read_tex_header raw) \<noteq> 0"
    and "make_dds_header calc (read_tex_header raw) pf = (dds_header, mipmap_count)"
    and "length levels = unat mipmap_count"
    and "\<forall>i<length levels. length (levels ! i) = unat (mip_size (read_tex_header raw) i)"
    and "drop 12 raw = concat (rev levels)"
  shows "tex_to_dds_bytes_with calc (Some raw) True True =
         Some (Inr \<lparr> out_data = map Some (header_bytes dds_header need_dx @ concat levels),
                      out_size = of_nat (length (header_bytes dds_header need_dx) +
                                         length (concat levels)) \<rparr>)"
proof -
  let ?h = "read_tex_header raw"
  let ?hdr = "header_bytes dds_header need_dx"
  have lp: "length (drop 12 raw) = length (concat levels)"
    using assms(9) by (simp del: length_drop)
  then have lr: "length raw - 12 = length (concat levels)"
    by simp
  have l31: "length (concat levels) < 2 ^ 31"
    using assms(2) lr by simp
  have cp: "copy_payload ?h mipmap_count (drop 12 raw) (of_nat (length raw - 12)) (length ?hdr)
              (map Some ?hdr @ replicate (length raw - 12) None) =
            Some (map Some (?hdr @ concat levels))"
  proof (cases "mipmap_count = 0")
    case True
    with assms(7) have "levels = []" by simp
    with assms(9) have "drop 12 raw = []" by simp
    with True copy_payload_verbatim [of ?h mipmap_count "drop 12 raw" "of_nat (length raw - 12)"
        ?hdr] \<open>levels = []\<close>
    show ?thesis by simp
  next
    case False
    then have pos: "0 < mipmap_count"
      by (simp add: word_greater_zero_iff)
    have small: "\<forall>j<unat mipmap_count. unat (mip_size ?h j) < 2 ^ 31"
    proof (intro allI impI)
      fix j assume "j < unat mipmap_count"
      with assms(7,8) length_nth_le_concat [of j levels]
      have "unat (mip_size ?h j) \<le> length (concat levels)" by simp
      with l31 show "unat (mip_size ?h j) < 2 ^ 31" by simp
    qed
    have "levels_from_end ?h (unat mipmap_count) 0 (concat (rev levels)) = concat levels"
      using assms(7,8) by (intro levels_from_end_chain) simp_all
    with copy_payload_levels [OF assms(5) pos _ small, of "concat (rev levels)" ?hdr] l31
    show ?thesis
      by (simp add: assms(9) lr)
  qed
  have "length raw + 136 < 2 ^ 32"
    using assms(2) by simp
  from convert_valid [OF assms(1) this assms(3,4,6) refl] cp show ?thesis
    by (simp add: lr)
qed

theorem mip_levels_reordered_witness:
  "12 \<le> length (tex_bytes 8 8 TEX_FORMAT_DXT1 1 (concat (rev chain_8x8))) \<and>
   length (tex_bytes 8 8 TEX_FORMAT_DXT1 1 (concat (rev chain_8x8))) < 2 ^ 31 \<and>
   take 3 (tex_bytes 8 8 TEX_FORMAT_DXT1 1 (concat (rev chain_8x8))) = take 3 TEX_MAGIC \<and>
   has_mipmaps (read_tex_header (tex_bytes 8 8 TEX_FORMAT_DXT1 1 (concat (rev chain_8x8)))) \<noteq> 0 \<and>
   length chain_8x8 =
     unat (snd (make_dds_header calc_mipmap_count
                  (read_tex_header (tex_bytes 8 8 TEX_FORMAT_DXT1 1 (concat (rev chain_8x8))))
                  dxt1_format)) \<and>
   map length chain_8x8 = [32, 8, 8, 8] \<and>
   map (\<lambda>i. unat (mip_size (read_tex_header
                                 (tex_bytes 8 8 TEX_FORMAT_DXT1 1 (concat (rev chain_8x8)))) i))
     [0, 1, 2, 3] = [32, 8, 8, 8] \<and>
   tex_to_dds_bytes (Some (tex_bytes 8 8 TEX_FORMAT_DXT1 1 (concat (rev chain_8x8)))) True True =
     Some (Inr \<lparr> out_data =
                   map Some (header_bytes
                               (fst (make_dds_header calc_mipmap_count
                                       (read_tex_header
                                          (tex_bytes 8 8 TEX_FORMAT_DXT1 1 (concat (rev chain_8x8))))
                                       dxt1_format)) False @ concat chain_8x8),
                 out_size = 184 \<rparr>)"
proof -
  let ?raw = "tex_bytes 8 8 TEX_FORMAT_DXT1 1 (concat (rev chain_8x8))"
  let ?H = "make_dds_header calc_mipmap_count (read_tex_header ?raw) dxt1_format"
  have lc: "length (concat chain_8x8) = 56"
    by (simp add: chain_8x8_def length_level_bytes)
  have h1: "12 \<le> length ?raw" and h2: "length ?raw < 2 ^ 31"
    by (simp_all add: length_tex_bytes lc)
  have h3: "take 3 ?raw = take 3 TEX_MAGIC"
    by (rule take_tex_bytes)
  have h4: "pixel_format (tex_format (read_tex_header ?raw)) = Some (dxt1_format, False)"
    by (rule dxt1_pixel_format)
  have h5: "has_mipmaps (read_tex_header ?raw) \<noteq> 0"
    by (simp add: read_tex_bytes)
  have h6: "?H = (fst ?H, snd ?H)"
    by simp
  have n: "snd ?H = 4"
    by (simp add: make_dds_header_def read_tex_bytes calc_mipmap_count_8)
  have len4: "length chain_8x8 = 4"
    by (simp add: chain_8x8_def)
  have h7: "length chain_8x8 = unat (snd ?H)"
    by (simp add: n len4)
  have h8: "\<forall>i<length chain_8x8. length (chain_8x8 ! i) = unat (mip_size (read_tex_header ?raw) i)"
    unfolding len4 less_4_cases
    by (auto simp: dxt1_mip_sizes_8) (simp_all add: chain_8x8_def length_level_bytes)
  have h9: "drop 12 ?raw = concat (rev chain_8x8)"
    by (rule drop_tex_bytes)
  have lens: "map length chain_8x8 = [32, 8, 8, 8]"
    by (simp add: chain_8x8_def length_level_bytes)
  have "tex_to_dds_bytes (Some ?raw) True True =
        Some (Inr \<lparr> out_data = map Some (header_bytes (fst ?H) False @ concat chain_8x8),
                     out_size = 184 \<rparr>)"
    using mip_levels_reordered [OF h1 h2 h3 h4 h5 h6 h7 h8 h9]
    by (simp add: tex_to_dds_bytes_def dxt1_header_length lc)
  moreover have "map (\<lambda>i. unat (mip_size (read_tex_header ?raw) i)) [0, 1, 2, 3] = [32, 8, 8, 8]"
    by (simp add: dxt1_mip_sizes_8)
  ultimately show ?thesis
    using h1 h2 h3 h5 h7 lens by blast
qed

text \<open>The two-level input of the specification's test, 8 by 8 with 16 bytes of payload, is
  shorter than level 0 alone: the loop stops at once and the payload of the output stays
  unwritten.\<close>

theorem two_level_test_leaves_payload_unwritten:
  "tex_to_dds_bytes
     (Some (tex_bytes 8 8 TEX_FORMAT_DXT1 1 (level_bytes 0x40 8 @ level_bytes 0x10 8))) True True =
   Some (Inr \<lparr> out_data =
                 map Some (header_bytes
                             (fst (make_dds_header calc_mipmap_count
                                     (read_tex_header (tex_bytes 8 8 TEX_FORMAT_DXT1 1 []))
                                     dxt1_format)) False) @ replicate 16 None,
               out_size = 144 \<rparr>) \<and>
   replicate 16 None \<noteq> map Some (level_bytes 0x10 8 @ level_bytes 0x40 8)"
proof -
  let ?raw = "tex_bytes 8 8 TEX_FORMAT_DXT1 1 (level_bytes 0x40 8 @ level_bytes 0x10 8)"
  let ?H = "make_dds_header calc_mipmap_count (read_tex_header ?raw) dxt1_format"
  have n: "snd ?H = 4"
    by (simp add: make_dds_header_def read_tex_bytes calc_mipmap_count_8)
  have s0: "unat (mip_size (read_tex_header ?raw) 0) = 32"
    by (rule dxt1_mip_sizes_8)
  have hm: "has_mipmaps (read_tex_header ?raw) \<noteq> 0"
    by (simp add: read_tex_bytes)
  have pos: "0 < snd ?H"
    by (simp add: n)
  have small: "\<forall>j<unat (snd ?H). unat (mip_size (read_tex_header ?raw) j) < 2 ^ 31"
    unfolding n by (simp add: less_4_cases) (auto simp: dxt1_mip_sizes_8)
  have lv: "levels_from_end (read_tex_header ?raw) 4 0 (level_bytes 0x40 8 @ level_bytes 0x10 8) = []"
    by (subst levels_from_end.simps) (simp add: s0 length_level_bytes)
  have cp: "copy_payload (read_tex_header ?raw) (snd ?H)
              (level_bytes 0x40 8 @ level_bytes 0x10 8) 16 (length (header_bytes (fst ?H) False))
              (map Some (header_bytes (fst ?H) False) @ replicate 16 None) =
            Some (map Some (header_bytes (fst ?H) False) @ replicate 16 None)"
    using copy_payload_levels [of "read_tex_header ?raw" "snd ?H"
        "level_bytes 0x40 8 @ level_bytes 0x10 8" "header_bytes (fst ?H) False", OF hm pos _ small]
    by (simp add: n lv length_level_bytes)
  have "tex_to_dds_bytes (Some ?raw) True True =
        Some (Inr \<lparr> out_data = map Some (header_bytes (fst ?H) False) @ replicate 16 None,
                     out_size = 144 \<rparr>)"
    using convert_valid [where raw = ?raw and calc = calc_mipmap_count and pf = dxt1_format
        and need_dx = False and dds_header = "fst ?H" and mipmap_count = "snd ?H", OF _ _ _ _ _ refl]
      cp
    by (simp add: length_tex_bytes take_tex_bytes drop_tex_bytes tex_to_dds_bytes_def
        dxt1_pixel_format dxt1_header_length length_level_bytes)
  moreover have "replicate 16 None \<noteq> map Some (level_bytes 0x10 8 @ level_bytes 0x40 8)"
  proof
    assume "replicate 16 None = map Some (level_bytes 0x10 8 @ level_bytes 0x40 8)"
    then have "set (replicate 16 (None :: byte option)) =
               set (map Some (level_bytes 0x10 8 @ level_bytes 0x40 8))"
      by simp
    then show False
      by auto
  qed
  ultimately show ?thesis
    by (simp add: read_tex_bytes)
qed

text \<open>
  C3. With \<^verbatim>\<open>has_mipmaps\<close> set, a positive level count and every level size below
  \<open>2\<^sup>3\<^sup>1\<close>, the conversion succeeds whatever the length of the payload: the output holds
  the headers, the levels copied before the cursor would go negative, and then cells that
  were never written, and the reported size is always that of the headers plus the whole
  input payload.
\<close>

theorem truncated_chain_still_converts:
  assumes "12 \<le> length raw" and "length raw < 2 ^ 31"
    and "take 3 raw = take 3 TEX_MAGIC"
    and "pixel_format (tex_format (read_tex_header raw)) = Some (pf, need_dx)"
    and "has_mipmaps (read_tex_header raw) \<noteq> 0"
    and "make_dds_header calc (read_tex_header raw) pf = (dds_header, mipmap_count)"
    and "0 < mipmap_count"
    and "\<forall>i<unat mipmap_count. unat (mip_size (read_tex_header raw) i) < 2 ^ 31"
    and "copied = levels_from_end (read_tex_header raw) (unat mipmap_count) 0 (drop 12 raw)"
  shows "tex_to_dds_bytes_with calc (Some raw) True True =
         Some (Inr \<lparr> out_data = map Some (header_bytes dds_header need_dx @ copied) @
                                 replicate (length (drop 12 raw) - length copied) None,
                      out_size = of_nat (length (header_bytes dds_header need_dx) +
                                         length (drop 12 raw)) \<rparr>)"
proof -
  have "length raw + 136 < 2 ^ 32"
    using assms(2) by simp
  from convert_valid [OF assms(1) this assms(3,4,6) refl] assms(2,9)
    copy_payload_levels [OF assms(5) assms(7) _ assms(8), of "drop 12 raw"
      "header_bytes dds_header need_dx"]
  show ?thesis
    by simp
qed

theorem truncated_chain_still_converts_witness:
  "12 \<le> length (tex_bytes 4 4 TEX_FORMAT_DXT1 1 (level_bytes 1 20)) \<and>
   length (tex_bytes 4 4 TEX_FORMAT_DXT1 1 (level_bytes 1 20)) < 2 ^ 31 \<and>
   take 3 (tex_bytes 4 4 TEX_FORMAT_DXT1 1 (level_bytes 1 20)) = take 3 TEX_MAGIC \<and>
   has_mipmaps (read_tex_header (tex_bytes 4 4 TEX_FORMAT_DXT1 1 (level_bytes 1 20))) \<noteq> 0 \<and>
   snd (make_dds_header calc_mipmap_count
          (read_tex_header (tex_bytes 4 4 TEX_FORMAT_DXT1 1 (level_bytes 1 20))) dxt1_format) = 3 \<and>
   map (\<lambda>i. unat (mip_size (read_tex_header
                                 (tex_bytes 4 4 TEX_FORMAT_DXT1 1 (level_bytes 1 20))) i))
     [0, 1, 2] = [8, 8, 8] \<and>
   tex_to_dds_bytes (Some (tex_bytes 4 4 TEX_FORMAT_DXT1 1 (level_bytes 1 20))) True True =
     Some (Inr \<lparr> out_data =
                   map Some (header_bytes
                               (fst (make_dds_header calc_mipmap_count
                                       (read_tex_header
                                          (tex_bytes 4 4 TEX_FORMAT_DXT1 1 (level_bytes 1 20)))
                                       dxt1_format)) False @
                             drop 12 (level_bytes 1 20) @ drop 4 (take 12 (level_bytes 1 20))) @
                   replicate 4 None,
                 out_size = 148 \<rparr>)"
proof -
  let ?raw = "tex_bytes 4 4 TEX_FORMAT_DXT1 1 (level_bytes 1 20)"
  let ?H = "make_dds_header calc_mipmap_count (read_tex_header ?raw) dxt1_format"
  have h1: "12 \<le> length ?raw" and h2: "length ?raw < 2 ^ 31"
    by (simp_all add: length_tex_bytes length_level_bytes)
  have h3: "take 3 ?raw = take 3 TEX_MAGIC"
    by (rule take_tex_bytes)
  have h4: "pixel_format (tex_format (read_tex_header ?raw)) = Some (dxt1_format, False)"
    by (rule dxt1_pixel_format)
  have h5: "has_mipmaps (read_tex_header ?raw) \<noteq> 0"
    by (simp add: read_tex_bytes)
  have h6: "?H = (fst ?H, snd ?H)"
    by simp
  have n: "snd ?H = 3"
    by (simp add: make_dds_header_def read_tex_bytes calc_mipmap_count_4)
  have h7: "0 < snd ?H"
    by (simp add: n)
  have small: "\<forall>i<3. unat (mip_size (read_tex_header ?raw) i) < 2 ^ 31"
    by (simp add: less_3_cases) (auto simp: dxt1_mip_sizes_4)
  then have h8: "\<forall>i<unat (snd ?H). unat (mip_size (read_tex_header ?raw) i) < 2 ^ 31"
    by (simp add: n)
  have h9: "drop 12 (level_bytes 1 20) @ drop 4 (take 12 (level_bytes 1 20)) =
            levels_from_end (read_tex_header ?raw) (unat (snd ?H)) 0 (drop 12 ?raw)"
    by (simp add: n drop_tex_bytes levels_from_end_short)
  have "tex_to_dds_bytes (Some ?raw) True True =
        Some (Inr \<lparr> out_data =
                       map Some (header_bytes (fst ?H) False @
                                 drop 12 (level_bytes 1 20) @ drop 4 (take 12 (level_bytes 1 20))) @
                       replicate 4 None,
                     out_size = 148 \<rparr>)"
    using truncated_chain_still_converts [OF h1 h2 h3 h4 h5 h6 h7 h8 h9]
    by (simp add: tex_to_dds_bytes_def dxt1_header_length drop_tex_bytes length_level_bytes)
  moreover have "map (\<lambda>i. unat (mip_size (read_tex_header ?raw) i)) [0, 1, 2] = [8, 8, 8]"
    by (simp add: dxt1_mip_sizes_4)
  ultimately show ?thesis
    using h1 h2 h3 h5 n by blast
qed

text \<open>A payload of 20 bytes for a 4 by 4 image gives two levels of 8 bytes and four unwritten
  cells; the reported size 148 counts them.\<close>

theorem reported_length_includes_unwritten_cells:
  "tex_to_dds_bytes (Some (tex_bytes 4 4 TEX_FORMAT_DXT1 1 (level_bytes 1 20))) True True =
     Some (Inr \<lparr> out_data =
                   map Some (header_bytes
                               (fst (make_dds_header calc_mipmap_count
                                       (read_tex_header
                                          (tex_bytes 4 4 TEX_FORMAT_DXT1 1 (level_bytes 1 20)))
                                       dxt1_format)) False @
                             drop 12 (level_bytes 1 20) @ drop 4 (take 12 (level_bytes 1 20))) @
                   replicate 4 None,
                 out_size = 148 \<rparr>) \<and>
   (148 :: 32 word) \<noteq>
     of_nat (length (header_bytes
                       (fst (make_dds_header calc_mipmap_count
                               (read_tex_header
                                  (tex_bytes 4 4 TEX_FORMAT_DXT1 1 (level_bytes 1 20)))
                               dxt1_format)) False @
                     drop 12 (level_bytes 1 20) @ drop 4 (take 12 (level_bytes 1 20))))"
proof -
  let ?raw = "tex_bytes 4 4 TEX_FORMAT_DXT1 1 (level_bytes 1 20)"
  let ?H = "make_dds_header calc_mipmap_count (read_tex_header ?raw) dxt1_format"
  have h1: "12 \<le> length ?raw" and h2: "length ?raw < 2 ^ 31"
    by (simp_all add: length_tex_bytes length_level_bytes)
  have h5: "has_mipmaps (read_tex_header ?raw) \<noteq> 0"
    by (simp add: read_tex_bytes)
  have h6: "?H = (fst ?H, snd ?H)"
    by simp
  have n: "snd ?H = 3"
    by (simp add: make_dds_header_def read_tex_bytes calc_mipmap_count_4)
  have h7: "0 < snd ?H"
    by (simp add: n)
  have h8: "\<forall>i<unat (snd ?H). unat (mip_size (read_tex_header ?raw) i) < 2 ^ 31"
    unfolding n by (simp add: less_3_cases) (auto simp: dxt1_mip_sizes_4)
  have cp: "copy_payload (read_tex_header ?raw) (snd ?H) (level_bytes 1 20) 20
              (length (header_bytes (fst ?H) False))
              (map Some (header_bytes (fst ?H) False) @ replicate 20 None) =
            Some (map Some (header_bytes (fst ?H) False @
                            drop 12 (level_bytes 1 20) @ drop 4 (take 12 (level_bytes 1 20))) @
                  replicate 4 None)"
    using copy_payload_levels [of "read_tex_header ?raw" "snd ?H" "level_bytes 1 20"
        "header_bytes (fst ?H) False", OF h5 h7 _ h8]
    by (simp add: n levels_from_end_short length_level_bytes)
  have "tex_to_dds_bytes (Some ?raw) True True =
        Some (Inr \<lparr> out_data =
                       map Some (header_bytes (fst ?H) False @
                                 drop 12 (level_bytes 1 20) @ drop 4 (take 12 (level_bytes 1 20))) @
                       replicate 4 None,
                     out_size = 148 \<rparr>)"
    using convert_valid [OF h1 _ take_tex_bytes dxt1_pixel_format h6 refl] h2 cp
    by (simp add: tex_to_dds_bytes_def dxt1_header_length drop_tex_bytes length_tex_bytes
        length_level_bytes)
  then show ?thesis
    by (simp add: dxt1_header_length length_level_bytes)
qed

text \<open>The bound on the level sizes is needed: a level of \<open>2\<^sup>3\<^sup>1\<close> bytes or more can
  wrap the signed cursor to a value that is not negative, and the copy then leaves the
  payload.\<close>

lemma big_bgra8_header:
  "read_tex_header big_bgra8 =
     \<lparr> magic = TEX_MAGIC, image_width = 30000, image_height = 30000, unk1 = 0,
       tex_format = TEX_FORMAT_BGRA8, unk2 = 0, has_mipmaps = 1 \<rparr>"
  by (simp add: read_tex_header_def big_bgra8_def TEX_MAGIC_def le16_def TEX_FORMAT_BGRA8_def)

lemma big_bgra8_level_0: "mip_size (read_tex_header big_bgra8) 0 = 3600000000"
  by (simp add: big_bgra8_header mip_size_def get_block_size_def get_bytes_per_block_def
      MAX_macro_def format_defs)

lemma calc_mipmap_count_30000: "calc_mipmap_count 30000 30000 = 15"
  by (simp add: calc_mipmap_count_def MAX_macro_def clz32_def BitScanReverse_def eval_nat_numeral)

lemma oversized_level_leaves_the_buffer:
  "unat (mip_size (read_tex_header big_bgra8) 0) = 3600000000 \<and>
   tex_to_dds_bytes (Some big_bgra8) True True = None"
proof -
  let ?h = "read_tex_header big_bgra8"
  obtain pf where pf: "pixel_format (tex_format ?h) = Some (pf, False)"
    by (simp add: big_bgra8_header pixel_format_def format_defs)
  let ?H = "make_dds_header calc_mipmap_count ?h pf"
  have n: "snd ?H = 15"
    by (simp add: make_dds_header_def big_bgra8_header calc_mipmap_count_30000)
  have loop: "mip_loop ?h [] 15 0 0 ptr dst = None" for ptr dst
    by (subst mip_loop.simps) (simp add: big_bgra8_level_0 memcpy_from_def)
  have hm: "has_mipmaps ?h \<noteq> 0"
    by (simp add: big_bgra8_header)
  have "copy_payload ?h (snd ?H) [] 0 ptr dst = None" for ptr dst
    unfolding copy_payload_def n using hm by (simp add: loop)
  moreover have "12 \<le> length big_bgra8" "length big_bgra8 + 136 < 2 ^ 32"
    "take 3 big_bgra8 = take 3 TEX_MAGIC"
    by (simp_all add: big_bgra8_def TEX_MAGIC_def)
  ultimately have "tex_to_dds_bytes (Some big_bgra8) True True = None"
    using convert_valid [of big_bgra8 pf False calc_mipmap_count "fst ?H" "snd ?H", OF _ _ _ pf]
    by (simp add: tex_to_dds_bytes_def big_bgra8_def)
  then show ?thesis
    by (simp add: big_bgra8_level_0)
qed

subsection \<open>The failures\<close>

lemma pixel_format_None:
  "pixel_format format = None \<longleftrightarrow>
   format \<notin> {TEX_FORMAT_DXT1, TEX_FORMAT_DXT5, TEX_FORMAT_BGRA8, TEX_FORMAT_RGBA16}"
  by (simp add: pixel_format_def Let_def)

lemma convert_invalid:
  assumes "length raw < 2 ^ 32" and "length raw < 12 \<or> take 3 raw \<noteq> take 3 TEX_MAGIC"
  shows "tex_to_dds_bytes_with calc (Some raw) dds_alloc tex_alloc = Some (Inl InvalidInput)"
  using assms by (auto simp: tex_to_dds_bytes_with_def sizeof_TEX_HEADER_def)

lemma convert_unsupported:
  assumes "12 \<le> length raw" and "length raw < 2 ^ 32" and "take 3 raw = take 3 TEX_MAGIC"
    and "pixel_format (tex_format (read_tex_header raw)) = None"
  shows "tex_to_dds_bytes_with calc (Some raw) dds_alloc tex_alloc = Some (Inl UnsupportedFormat)"
proof -
  have "unat (of_nat (length raw) :: 32 word) = length raw"
    using assms(2) by (rule unat_of_nat_32)
  with assms(1) have "\<not> (of_nat (length raw) :: 32 word) < sizeof_TEX_HEADER"
    by (simp add: word_less_nat_alt sizeof_TEX_HEADER_def)
  with assms show ?thesis
    by (simp add: tex_to_dds_bytes_with_def sizeof_TEX_HEADER_def Let_def)
qed

lemma convert_supported:
  assumes "12 \<le> length raw" and "length raw < 2 ^ 32" and "take 3 raw = take 3 TEX_MAGIC"
    and "pixel_format (tex_format (read_tex_header raw)) = Some (pf, need_dx)"
  shows "tex_to_dds_bytes_with calc (Some raw) dds_alloc tex_alloc \<noteq> Some (Inl InvalidInput) \<and>
         tex_to_dds_bytes_with calc (Some raw) dds_alloc tex_alloc \<noteq> Some (Inl UnsupportedFormat)"
proof -
  define file_size :: "32 word" where "file_size = of_nat (length raw)"
  have fs: "unat file_size = length raw"
    using assms(2) by (simp add: file_size_def unat_of_nat_32)
  have nlt: "\<not> file_size < sizeof_TEX_HEADER" "\<not> length raw < 12"
    using assms(1) by (simp_all add: word_less_nat_alt fs sizeof_TEX_HEADER_def)
  have u12: "unat sizeof_TEX_HEADER = 12"
    by (simp add: sizeof_TEX_HEADER_def)
  have "unat (file_size - sizeof_TEX_HEADER) = length raw - 12"
    using assms(1) by (simp add: unat_sub_if' fs u12)
  then have rd: "length (take (unat (file_size - sizeof_TEX_HEADER)) (drop 12 raw)) =
                 unat (file_size - sizeof_TEX_HEADER)"
    by simp
  obtain dds_header mipmap_count
    where H: "make_dds_header calc (read_tex_header raw) pf = (dds_header, mipmap_count)"
    by (cases "make_dds_header calc (read_tex_header raw) pf")
  show ?thesis
    unfolding tex_to_dds_bytes_with_def Let_def
    by (simp only: option.case prod.case file_size_def [symmetric] nlt assms(3,4) H u12 rd
        simp_thms if_False if_True)
      (simp split: option.splits prod.splits)
qed

text \<open>
  C6. For a file shorter than \<open>2\<^sup>3\<^sup>2\<close> bytes the conversion fails as invalid exactly when
  the file has fewer than 12 bytes, the size of the header, or does not start with the
  magic, and as unsupported exactly when the header is valid and the format is none of the
  four recognized ones. The two failures return -2 and -3, and the codes of all failures are
  negative and pairwise different.
\<close>

theorem failure_classes:
  assumes "length raw < 2 ^ 32"
  shows "(tex_to_dds_bytes_with calc (Some raw) dds_alloc tex_alloc = Some (Inl InvalidInput) \<longleftrightarrow>
            length raw < 12 \<or> take 3 raw \<noteq> [0x54, 0x45, 0x58]) \<and>
         (tex_to_dds_bytes_with calc (Some raw) dds_alloc tex_alloc = Some (Inl UnsupportedFormat) \<longleftrightarrow>
            12 \<le> length raw \<and> take 3 raw = [0x54, 0x45, 0x58] \<and>
            tex_format (read_tex_header raw) \<notin>
              {TEX_FORMAT_DXT1, TEX_FORMAT_DXT5, TEX_FORMAT_BGRA8, TEX_FORMAT_RGBA16}) \<and>
         status_code InvalidInput = - 2 \<and> status_code UnsupportedFormat = - 3 \<and>
         inj status_code \<and> (\<forall>f. status_code f < 0)"
proof -
  have m: "take 3 TEX_MAGIC = [0x54, 0x45, 0x58]"
    by (simp add: TEX_MAGIC_def)
  have codes: "status_code f < 0" for f
    by (cases f) simp_all
  have "inj status_code"
  proof (rule injI)
    fix f g assume "status_code f = status_code g"
    then show "f = g" by (cases f; cases g) simp_all
  qed
  moreover have "(tex_to_dds_bytes_with calc (Some raw) dds_alloc tex_alloc = Some (Inl InvalidInput) \<longleftrightarrow>
            length raw < 12 \<or> take 3 raw \<noteq> [0x54, 0x45, 0x58]) \<and>
         (tex_to_dds_bytes_with calc (Some raw) dds_alloc tex_alloc = Some (Inl UnsupportedFormat) \<longleftrightarrow>
            12 \<le> length raw \<and> take 3 raw = [0x54, 0x45, 0x58] \<and>
            tex_format (read_tex_header raw) \<notin>
              {TEX_FORMAT_DXT1, TEX_FORMAT_DXT5, TEX_FORMAT_BGRA8, TEX_FORMAT_RGBA16})"
  proof (cases "length raw < 12 \<or> take 3 raw \<noteq> take 3 TEX_MAGIC")
    case True
    from convert_invalid [OF assms True, of calc dds_alloc tex_alloc] True show ?thesis
      by (auto simp: m)
  next
    case False
    then have v: "12 \<le> length raw" "take 3 raw = take 3 TEX_MAGIC"
      by simp_all
    show ?thesis
    proof (cases "pixel_format (tex_format (read_tex_header raw))")
      case None
      from convert_unsupported [OF v(1) assms v(2) None, of calc dds_alloc tex_alloc] None v
      show ?thesis
        by (simp add: m pixel_format_None)
    next
      case (Some p)
      obtain pf need_dx where "p = (pf, need_dx)" by (cases p)
      with Some have s: "pixel_format (tex_format (read_tex_header raw)) = Some (pf, need_dx)"
        by simp
      then have "\<not> tex_format (read_tex_header raw) \<notin>
              {TEX_FORMAT_DXT1, TEX_FORMAT_DXT5, TEX_FORMAT_BGRA8, TEX_FORMAT_RGBA16}"
        using pixel_format_None [of "tex_format (read_tex_header raw)"] by simp
      with convert_supported [OF v(1) assms v(2) s, of calc dds_alloc tex_alloc] v
      show ?thesis
        by (simp add: m)
    qed
  qed
  ultimately show ?thesis
    using codes by simp
qed

theorem failure_classes_witness:
  "length (take 10 (tex_bytes 4 4 TEX_FORMAT_DXT1 0 [])) < 2 ^ 32 \<and>
   tex_to_dds_bytes (Some (take 10 (tex_bytes 4 4 TEX_FORMAT_DXT1 0 []))) True True =
     Some (Inl InvalidInput) \<and>
   length (tex_bytes 4 4 0xFF 0 []) < 2 ^ 32 \<and>
   tex_to_dds_bytes (Some (tex_bytes 4 4 0xFF 0 [])) True True = Some (Inl UnsupportedFormat) \<and>
   status_code InvalidInput = - 2 \<and> status_code UnsupportedFormat = - 3"
proof -
  have a: "length (take 10 (tex_bytes 4 4 TEX_FORMAT_DXT1 0 [])) < 2 ^ 32"
    and b: "length (tex_bytes 4 4 0xFF 0 []) < 2 ^ 32"
    by (simp_all add: length_tex_bytes)
  have "tex_to_dds_bytes (Some (take 10 (tex_bytes 4 4 TEX_FORMAT_DXT1 0 []))) True True =
        Some (Inl InvalidInput)"
    using failure_classes [OF a, of calc_mipmap_count True True]
    by (simp add: tex_to_dds_bytes_def length_tex_bytes)
  moreover have "tex_to_dds_bytes (Some (tex_bytes 4 4 0xFF 0 [])) True True =
        Some (Inl UnsupportedFormat)"
    using failure_classes [OF b, of calc_mipmap_count True True]
    by (simp add: tex_to_dds_bytes_def length_tex_bytes read_tex_bytes format_defs)
      (simp add: tex_bytes_def)
  ultimately show ?thesis
    using a b by simp
qed

text \<open>A file of ten bytes with the magic is at least eight bytes long and still invalid.\<close>

theorem ten_byte_input_is_invalid:
  "tex_to_dds_bytes (Some (take 10 (tex_bytes 4 4 TEX_FORMAT_DXT1 0 []))) True True =
     Some (Inl InvalidInput) \<and>
   \<not> length (take 10 (tex_bytes 4 4 TEX_FORMAT_DXT1 0 [])) < 8 \<and>
   take 3 (take 10 (tex_bytes 4 4 TEX_FORMAT_DXT1 0 [])) = take 3 TEX_MAGIC"
  using convert_invalid [of "take 10 (tex_bytes 4 4 TEX_FORMAT_DXT1 0 [])" calc_mipmap_count
      True True]
  by (simp add: tex_to_dds_bytes_def length_tex_bytes) (simp add: tex_bytes_def TEX_MAGIC_def)

end
